theory Spec2Isabelle
  imports Complex_Main "HOL-Library.Word" "HOL-Library.Monad_Syntax"
begin

unbundle bit_operations_syntax

section \<open>The register window\<close>

text \<open>
  The I2C functions of package rpio work on \<open>i2cMem\<close>, a window of 32-bit registers of
  the peripheral (\<open>I2cBegin\<close> also reads one register of \<open>spiMem\<close>). Such a register
  is not storage: what a read returns is decided by the peripheral. The model keeps the
  list of all accesses made so far, oldest first, and takes the peripheral as a function
  from that history to the value the next read of a register returns. Every deterministic
  peripheral is such a function, since the reads themselves are part of the history.
\<close>

type_synonym byte = "8 word"
type_synonym uint32 = "32 word"

datatype mem = i2cMem | spiMem

text \<open>The two pin modes these functions pass to \<open>Pin.Mode\<close>.\<close>

datatype Mode = Input | I2c

datatype event =
    Rd mem nat uint32      \<comment> \<open>a read of register \<open>r\<close> of a window, and the value it returned\<close>
  | Wr mem nat uint32      \<comment> \<open>a write of a value to register \<open>r\<close> of a window\<close>
  | SetPinMode nat Mode    \<comment> \<open>\<open>pin.Mode(mode)\<close>, a call into the GPIO part of the package\<close>

type_synonym device = "event list \<Rightarrow> mem \<Rightarrow> nat \<Rightarrow> uint32"

text \<open>
  A register window that behaves as plain storage: a read returns the value written last,
  or the initial content \<open>m0\<close> of a register never written.
\<close>

fun ram :: "(mem \<Rightarrow> nat \<Rightarrow> uint32) \<Rightarrow> device" where
  "ram m0 [] = m0"
| "ram m0 (Wr m r v # es) = ram (m0(m := (m0 m)(r := v))) es"
| "ram m0 (Rd m r v # es) = ram m0 es"
| "ram m0 (SetPinMode p md # es) = ram m0 es"

text \<open>The register indices of the source (the \<open>iota\<close> block of lines 18 to 27).\<close>

definition controlReg :: nat where "controlReg = 0"
definition statusReg :: nat where "statusReg = 1"
definition dataLengthReg :: nat where "dataLengthReg = 2"
definition slaveAddressReg :: nat where "slaveAddressReg = 3"
definition dataFifoReg :: nat where "dataFifoReg = 4"
definition clockDividerReg :: nat where "clockDividerReg = 5"
definition dataDelayReg :: nat where "dataDelayReg = 6"
definition clockStretchTimeoutReg :: nat where "clockStretchTimeoutReg = 7"

text \<open>The status register masks of the source (lines 42 to 53) that the transfer is about.\<close>

definition statusRXContainsData :: uint32 where "statusRXContainsData = 0x00000020"
definition statusTXAcceptsData :: uint32 where "statusTXAcceptsData = 0x00000010"
definition statusTransferDone :: uint32 where "statusTransferDone = 0x00000002"

definition i2cClockDivider2500 :: uint32 where "i2cClockDivider2500 = 2500"

text \<open>
  The functions index \<open>i2cMem\<close> with \<open>csReg\<close>, \<open>fifoReg\<close> and \<open>clkDivReg\<close>. These three
  constants are declared in another file of the package, so they are parameters of the
  model: every function takes the record of the three indices.
\<close>

record regs =
  csReg :: nat
  fifoReg :: nat
  clkDivReg :: nat

text \<open>
  The three indices when they name the control, data FIFO and clock divider registers
  of the source's own enumeration.
\<close>

definition bscRegs :: regs where
  "bscRegs = \<lparr>csReg = controlReg, fifoReg = dataFifoReg, clkDivReg = clockDividerReg\<rparr>"

section \<open>The state of the program\<close>

text \<open>
  Byte slices share their arrays, and \<open>I2cExchange\<close> writes into the array of the slice
  it is given, so arrays live in a heap: a list of arrays, an address being a position
  in it. A slice is a window into one array, as in Go.
\<close>

record slice =
  arr :: nat
  off :: nat
  len :: nat
  cap :: nat

record state =
  heap :: "byte list list"
  trace :: "event list"
  i2cByteWaitMicroseconds :: int

definition load :: "device \<Rightarrow> mem \<Rightarrow> nat \<Rightarrow> state \<Rightarrow> uint32 \<times> state" where
  "load D m r s = (D (trace s) m r, s\<lparr>trace := trace s @ [Rd m r (D (trace s) m r)]\<rparr>)"

definition store :: "mem \<Rightarrow> nat \<Rightarrow> uint32 \<Rightarrow> state \<Rightarrow> state" where
  "store m r v s = s\<lparr>trace := trace s @ [Wr m r v]\<rparr>"

text \<open>\<open>i2cMem[r] |= msk\<close> and \<open>i2cMem[r] &^= msk\<close>: a read, then a write.\<close>

definition setBits :: "device \<Rightarrow> nat \<Rightarrow> uint32 \<Rightarrow> state \<Rightarrow> state" where
  "setBits D r msk s = (case load D i2cMem r s of (v, s') \<Rightarrow> store i2cMem r (v OR msk) s')"

definition clearBits :: "device \<Rightarrow> nat \<Rightarrow> uint32 \<Rightarrow> state \<Rightarrow> state" where
  "clearBits D r msk s =
     (case load D i2cMem r s of (v, s') \<Rightarrow> store i2cMem r (v AND NOT msk) s')"

section \<open>Clock divider, chip select polarity, clock mode\<close>

definition setI2cDiv :: "regs \<Rightarrow> uint32 \<Rightarrow> state \<Rightarrow> state" where
  "setI2cDiv L div' s =
     (let divMask = push_bit 16 1 - 1 - 1 in store i2cMem (clkDivReg L) (div' AND divMask) s)"

definition I2cChipSelectPolarity :: "device \<Rightarrow> regs \<Rightarrow> byte \<Rightarrow> byte \<Rightarrow> state \<Rightarrow> state" where
  "I2cChipSelectPolarity D L chip polarity s =
     (if chip > 2 then s
      else let cspol = push_bit (unat (21 + chip)) (1 :: uint32)
           in if polarity = 0 then clearBits D (csReg L) cspol s
              else setBits D (csReg L) cspol s)"

definition I2cMode :: "device \<Rightarrow> regs \<Rightarrow> byte \<Rightarrow> byte \<Rightarrow> state \<Rightarrow> state" where
  "I2cMode D L polarity phase s =
     (let cpol = push_bit 3 1; cpha = push_bit 2 1;
          s1 = (if polarity = 0 then clearBits D (csReg L) cpol s
                else setBits D (csReg L) cpol s)
      in if phase = 0 then clearBits D (csReg L) cpha s1
         else setBits D (csReg L) cpha s1)"

section \<open>Byte slices\<close>

text \<open>
  A slice is valid in a state when its window lies inside its array. The slices of a Go
  program always are; the theorems about a slice given by the caller assume it.
\<close>

definition validSlice :: "state \<Rightarrow> slice \<Rightarrow> bool" where
  "validSlice s d \<longleftrightarrow>
     arr d < length (heap s) \<and> len d \<le> cap d \<and> off d + cap d \<le> length (heap s ! arr d)"

text \<open>The bytes a slice shows, \<open>data[i]\<close>, and \<open>data[i] = b\<close>.\<close>

definition bytesOf :: "state \<Rightarrow> slice \<Rightarrow> byte list" where
  "bytesOf s d = take (len d) (drop (off d) (heap s ! arr d))"

definition getByte :: "state \<Rightarrow> slice \<Rightarrow> nat \<Rightarrow> byte" where
  "getByte s d i = heap s ! arr d ! (off d + i)"

definition setByte :: "slice \<Rightarrow> nat \<Rightarrow> byte \<Rightarrow> state \<Rightarrow> state" where
  "setByte d i b s = s\<lparr>heap := (heap s)[arr d := (heap s ! arr d)[off d + i := b]]\<rparr>"

text \<open>
  \<open>make([]byte, n, n)\<close> for a length that the runtime accepts: a new array of zero bytes.
\<close>

definition makeBytes :: "nat \<Rightarrow> state \<Rightarrow> slice \<times> state" where
  "makeBytes n s =
     (\<lparr>arr = length (heap s), off = 0, len = n, cap = n\<rparr>, s\<lparr>heap := heap s @ [replicate n 0]\<rparr>)"

text \<open>
  \<open>append(d, bs...)\<close>: in place when the capacity of \<open>d\<close> has room for the new bytes, in a
  new array otherwise. The runtime may give the new array more capacity than the length
  asked for; the model gives it exactly that length.
\<close>

definition appendBytes :: "slice \<Rightarrow> byte list \<Rightarrow> state \<Rightarrow> slice \<times> state" where
  "appendBytes d bs s =
     (if len d + length bs \<le> cap d then
        (d\<lparr>len := len d + length bs\<rparr>,
         s\<lparr>heap := (heap s)[arr d :=
              take (off d + len d) (heap s ! arr d) @ bs @
              drop (off d + len d + length bs) (heap s ! arr d)]\<rparr>)
      else
        (\<lparr>arr = length (heap s), off = 0,
          len = len d + length bs, cap = len d + length bs\<rparr>,
         s\<lparr>heap := heap s @ [bytesOf s d @ bs]\<rparr>))"

section \<open>The byte exchange\<close>

text \<open>The constants local to \<open>I2cExchange\<close> (\<open>ta\<close>, \<open>txd\<close>, \<open>rxd\<close>, \<open>done\<close>).\<close>

definition exch_ta :: uint32 where "exch_ta = push_bit 7 1"
definition exch_txd :: uint32 where "exch_txd = push_bit 18 1"
definition exch_rxd :: uint32 where "exch_rxd = push_bit 17 1"
definition exch_done :: uint32 where "exch_done = push_bit 16 1"

text \<open>
  The busy wait \<open>for i2cMem[r]&msk == 0 {}\<close>. It has no bound in the source, so the model
  takes one: \<open>k\<close> is the number of reads a wait may make, and \<open>None\<close> says that the bit
  was not seen within them.
\<close>

fun waitBit :: "device \<Rightarrow> nat \<Rightarrow> uint32 \<Rightarrow> nat \<Rightarrow> state \<Rightarrow> state option" where
  "waitBit D r msk 0 s = None"
| "waitBit D r msk (Suc k) s =
     (case load D i2cMem r s of
        (v, s') \<Rightarrow> if v AND msk = 0 then waitBit D r msk k s' else Some s')"

definition clearI2cTxRxFifo :: "device \<Rightarrow> regs \<Rightarrow> state \<Rightarrow> state" where
  "clearI2cTxRxFifo D L s =
     (let clearTxRx = push_bit 5 1 OR push_bit 4 1 in setBits D (csReg L) clearTxRx s)"

text \<open>The body of the loop of \<open>I2cExchange\<close> at position \<open>i\<close>.\<close>

definition exchangeByte :: "device \<Rightarrow> regs \<Rightarrow> nat \<Rightarrow> slice \<Rightarrow> nat \<Rightarrow> state \<Rightarrow> state option" where
  "exchangeByte D L k data i s =
     do {
       s1 \<leftarrow> waitBit D (csReg L) exch_txd k s;
       let s2 = store i2cMem (fifoReg L) (ucast (getByte s1 data i)) s1;
       s3 \<leftarrow> waitBit D (csReg L) exch_rxd k s2;
       case load D i2cMem (fifoReg L) s3 of
         (v, s4) \<Rightarrow> Some (setByte data i (ucast v) s4)
     }"

function exchangeLoop :: "device \<Rightarrow> regs \<Rightarrow> nat \<Rightarrow> slice \<Rightarrow> nat \<Rightarrow> state \<Rightarrow> state option" where
  "exchangeLoop D L k data i s =
     (if i < len data then
        (case exchangeByte D L k data i s of
           None \<Rightarrow> None
         | Some s' \<Rightarrow> exchangeLoop D L k data (Suc i) s')
      else Some s)"
  by pat_completeness auto
termination
  by (relation "measure (\<lambda>(D, L, k, data, i, s). len data - i)") auto

definition I2cExchange :: "device \<Rightarrow> regs \<Rightarrow> nat \<Rightarrow> slice \<Rightarrow> state \<Rightarrow> state option" where
  "I2cExchange D L k data s =
     do {
       let s1 = clearI2cTxRxFifo D L s;
       let s2 = setBits D (csReg L) exch_ta s1;
       s3 \<leftarrow> exchangeLoop D L k data 0 s2;
       s4 \<leftarrow> waitBit D (csReg L) exch_done k s3;
       Some (clearBits D (csReg L) exch_ta s4)
     }"

text \<open>
  \<open>I2cTransmit(data...)\<close> with the caller's slice: \<open>data[:0:0]\<close> is the empty slice of
  capacity 0 at the start of \<open>data\<close>, and the bytes appended to it are those of \<open>data\<close>.
\<close>

definition I2cTransmit :: "device \<Rightarrow> regs \<Rightarrow> nat \<Rightarrow> slice \<Rightarrow> state \<Rightarrow> state option" where
  "I2cTransmit D L k data s =
     (case appendBytes (data\<lparr>len := 0, cap := 0\<rparr>) (bytesOf s data) s of
        (clone, s1) \<Rightarrow> I2cExchange D L k clone s1)"

datatype error = I2cMapError | MakesliceLenOutOfRange | OutOfMemory | SliceBoundsOutOfRange

text \<open>
  What \<open>make([]byte, n, n)\<close> depends on beyond the program: \<open>maxAlloc\<close>, the allocation
  limit of the Go runtime (the runtime panics with \<open>makeslice: len out of range\<close> for a
  negative length and for one above the limit, which is \<open>1 << 48\<close> on 64-bit Linux), and
  \<open>memFree\<close>, the number of bytes the allocator can still obtain when the call is made
  (asking for more ends the program with \<open>fatal error: out of memory\<close>).
\<close>

record runtime =
  maxAlloc :: int
  memFree :: int

definition I2cReceive ::
    "device \<Rightarrow> regs \<Rightarrow> runtime \<Rightarrow> nat \<Rightarrow> int \<Rightarrow> state \<Rightarrow> (error + slice \<times> state) option" where
  "I2cReceive D L R k n s =
     (if n < 0 \<or> maxAlloc R < n then Some (Inl MakesliceLenOutOfRange)
      else if memFree R < n then Some (Inl OutOfMemory)
      else case makeBytes (nat n) s of
        (data, s1) \<Rightarrow>
          (case I2cExchange D L k data s1 of
             None \<Rightarrow> None
           | Some s2 \<Rightarrow> Some (Inr (data, s2))))"

section \<open>Begin\<close>

definition I2c0 :: int where "I2c0 = 0"
definition I2c1 :: int where "I2c1 = 1"
definition I2c2 :: int where "I2c2 = 2"

definition getI2cPins :: "int \<Rightarrow> nat list" where
  "getI2cPins dev =
     (if dev = I2c0 then []
      else if dev = I2c1 then [2, 3]
      else if dev = I2c2 then []
      else [])"

definition pinMode :: "nat \<Rightarrow> Mode \<Rightarrow> state \<Rightarrow> state" where
  "pinMode pin md s = s\<lparr>trace := trace s @ [SetPinMode pin md]\<rparr>"

text \<open>
  \<open>I2cBegin\<close> takes two more parameters: the answer of \<open>isBCM2711()\<close>, a function of
  another file, and \<open>byteWait\<close>, the value of the floating point expression
  \<open>int64(float64(cdiv) / float64(coreFreq) * float64(1000000) * 9)\<close> for a divider and a
  core frequency. The result is the Go error (\<open>None\<close> for \<open>nil\<close>) and the new state.
  The line written to the log is left out.
\<close>

definition I2cBegin ::
    "device \<Rightarrow> regs \<Rightarrow> bool \<Rightarrow> (uint32 \<Rightarrow> int \<Rightarrow> int) \<Rightarrow> int \<Rightarrow> state \<Rightarrow> error option \<times> state" where
  "I2cBegin D L isBCM2711 byteWait dev s =
     (let s1 = store i2cMem (csReg L) 0 s in
      case load D i2cMem (csReg L) s1 of
        (v, s2) \<Rightarrow>
          if v = 0 then (Some I2cMapError, s2)
          else
            let s3 = foldl (\<lambda>st pin. pinMode pin I2c st) s2 (getI2cPins dev) in
            case load D spiMem clockDividerReg s3 of
              (cdiv, s4) \<Rightarrow>
                let coreFreq = (if isBCM2711 then 550 * 1000000 else 250 * 1000000);
                    s5 = s4\<lparr>i2cByteWaitMicroseconds := byteWait cdiv coreFreq\<rparr>;
                    s6 = setI2cDiv L i2cClockDivider2500 s5
                in (None, s6))"

section \<open>Observations on traces\<close>

text \<open>The events of \<open>s'\<close> that came after those of \<open>s\<close>.\<close>

definition since :: "state \<Rightarrow> state \<Rightarrow> event list" where
  "since s s' = drop (length (trace s)) (trace s')"

fun onReg :: "mem \<Rightarrow> nat \<Rightarrow> event \<Rightarrow> bool" where
  "onReg m r (Rd m' r' v) = (m' = m \<and> r' = r)"
| "onReg m r (Wr m' r' v) = (m' = m \<and> r' = r)"
| "onReg m r (SetPinMode p md) = False"

definition fifoAccesses :: "regs \<Rightarrow> event list \<Rightarrow> event list" where
  "fifoAccesses L tr = filter (onReg i2cMem (fifoReg L)) tr"

text \<open>The values written to a register, oldest first.\<close>

fun written :: "mem \<Rightarrow> nat \<Rightarrow> event list \<Rightarrow> uint32 list" where
  "written m r [] = []"
| "written m r (Wr m' r' v # es) =
     (if m' = m \<and> r' = r then v # written m r es else written m r es)"
| "written m r (Rd m' r' v # es) = written m r es"
| "written m r (SetPinMode p md # es) = written m r es"

text \<open>The content of a register of a window that behaves as storage.\<close>

definition regValue :: "(mem \<Rightarrow> nat \<Rightarrow> uint32) \<Rightarrow> state \<Rightarrow> nat \<Rightarrow> uint32" where
  "regValue m0 s r = ram m0 (trace s) i2cMem r"

text \<open>The state in which the program starts.\<close>

definition emptyState :: state where
  "emptyState = \<lparr>heap = [], trace = [], i2cByteWaitMicroseconds = 0\<rparr>"

section \<open>The shape of an exchange\<close>

text \<open>
  What one pass of the loop of \<open>I2cExchange\<close> adds to the history: the values \<open>tx\<close> read
  while waiting to send, the write of the byte, the values \<open>rx\<close> read while waiting to
  receive, and the read that returned \<open>v\<close>.
\<close>

type_synonym cycle = "uint32 list \<times> uint32 list \<times> uint32"

definition cycleEvents :: "regs \<Rightarrow> byte \<Rightarrow> cycle \<Rightarrow> event list" where
  "cycleEvents L b c =
     (case c of (tx, rx, v) \<Rightarrow>
        map (Rd i2cMem (csReg L)) tx @ [Wr i2cMem (fifoReg L) (ucast b)] @
        map (Rd i2cMem (csReg L)) rx @ [Rd i2cMem (fifoReg L) v])"

definition rxByte :: "cycle \<Rightarrow> byte" where
  "rxByte c = (case c of (tx, rx, v) \<Rightarrow> ucast v)"

definition waited :: "cycle \<Rightarrow> bool" where
  "waited c = (case c of (tx, rx, v) \<Rightarrow> tx \<noteq> [] \<and> rx \<noteq> [])"

definition fifoPair :: "regs \<Rightarrow> byte \<Rightarrow> cycle \<Rightarrow> event list" where
  "fifoPair L b c =
     (case c of (tx, rx, v) \<Rightarrow> [Wr i2cMem (fifoReg L) (ucast b), Rd i2cMem (fifoReg L) v])"

definition exchPrologue :: "regs \<Rightarrow> uint32 \<Rightarrow> uint32 \<Rightarrow> event list" where
  "exchPrologue L c0 c1 =
     [Rd i2cMem (csReg L) c0, Wr i2cMem (csReg L) (c0 OR 0x30),
      Rd i2cMem (csReg L) c1, Wr i2cMem (csReg L) (c1 OR 0x80)]"

definition exchEpilogue :: "regs \<Rightarrow> uint32 list \<Rightarrow> uint32 \<Rightarrow> event list" where
  "exchEpilogue L dn c2 =
     map (Rd i2cMem (csReg L)) dn @
     [Rd i2cMem (csReg L) c2, Wr i2cMem (csReg L) (c2 AND NOT 0x80)]"

text \<open>A peripheral answers within \<open>k\<close> reads when none of the three waits can fail.\<close>

definition answers :: "device \<Rightarrow> regs \<Rightarrow> nat \<Rightarrow> bool" where
  "answers D L k \<longleftrightarrow>
     (\<forall>s. waitBit D (csReg L) exch_txd k s \<noteq> None \<and>
          waitBit D (csReg L) exch_rxd k s \<noteq> None \<and>
          waitBit D (csReg L) exch_done k s \<noteq> None)"

text \<open>
  A weaker demand on the peripheral, enough for \<open>I2cExchange\<close> to return: each wait ends
  within \<open>k\<close> reads where the function makes it. It waits to send, and for the end of the
  transfer, when the last access was its write to the control register or a read of the
  data FIFO; it waits to receive when the last access was a write to the data FIFO.
\<close>

fun isWr :: "mem \<Rightarrow> nat \<Rightarrow> event \<Rightarrow> bool" where
  "isWr m r (Wr m' r' v) = (m' = m \<and> r' = r)"
| "isWr m r (Rd m' r' v) = False"
| "isWr m r (SetPinMode p md) = False"

fun isRd :: "mem \<Rightarrow> nat \<Rightarrow> event \<Rightarrow> bool" where
  "isRd m r (Rd m' r' v) = (m' = m \<and> r' = r)"
| "isRd m r (Wr m' r' v) = False"
| "isRd m r (SetPinMode p md) = False"

definition sendTurn :: "regs \<Rightarrow> event list \<Rightarrow> bool" where
  "sendTurn L tr \<longleftrightarrow>
     tr \<noteq> [] \<and> (isWr i2cMem (csReg L) (last tr) \<or> isRd i2cMem (fifoReg L) (last tr))"

definition receiveTurn :: "regs \<Rightarrow> event list \<Rightarrow> bool" where
  "receiveTurn L tr \<longleftrightarrow> tr \<noteq> [] \<and> isWr i2cMem (fifoReg L) (last tr)"

definition answersInTurn :: "device \<Rightarrow> regs \<Rightarrow> nat \<Rightarrow> bool" where
  "answersInTurn D L k \<longleftrightarrow>
     (\<forall>s. (sendTurn L (trace s) \<longrightarrow>
             waitBit D (csReg L) exch_txd k s \<noteq> None \<and>
             waitBit D (csReg L) exch_done k s \<noteq> None) \<and>
          (receiveTurn L (trace s) \<longrightarrow> waitBit D (csReg L) exch_rxd k s \<noteq> None))"

text \<open>
  Three peripherals to run the functions on. The first is always ready, in the bits that
  \<open>I2cExchange\<close> looks at, and answers each byte with that byte plus one. The second
  shows readiness where the status register masks of the source put it: its status
  register reads with the three bits set, and its other registers are storage that
  starts at zero. The third answers like the first but is ready by turns: it shows data
  to read only while a byte written to the data FIFO has not been read back, and room to
  write and the end of the transfer only otherwise.
\<close>

definition echoDevice :: "regs \<Rightarrow> device" where
  "echoDevice L tr m r =
     (if m = i2cMem \<and> r = fifoReg L then
        (case written i2cMem (fifoReg L) tr of [] \<Rightarrow> 0 | v # vs \<Rightarrow> last (v # vs) + 1)
      else exch_txd OR exch_rxd OR exch_done)"

definition statusDevice :: device where
  "statusDevice tr m r =
     (if m = i2cMem \<and> r = statusReg
      then statusTXAcceptsData OR statusRXContainsData OR statusTransferDone
      else ram (\<lambda>m r. 0) tr m r)"

text \<open>\<open>byteInFlight\<close> reads the history backwards, newest access first.\<close>

fun byteInFlight :: "regs \<Rightarrow> event list \<Rightarrow> bool" where
  "byteInFlight L [] = False"
| "byteInFlight L (e # es) =
     (if isRd i2cMem (csReg L) e then byteInFlight L es else isWr i2cMem (fifoReg L) e)"

definition fifoDevice :: "regs \<Rightarrow> device" where
  "fifoDevice L tr m r =
     (if m = i2cMem \<and> r = fifoReg L then
        (case written i2cMem (fifoReg L) tr of [] \<Rightarrow> 0 | v # vs \<Rightarrow> last (v # vs) + 1)
      else if byteInFlight L (rev tr) then exch_rxd
      else exch_txd OR exch_done)"

text \<open>The runtime of 64-bit Linux, with one gibibyte of memory to give.\<close>

definition linux64 :: runtime where
  "linux64 = \<lparr>maxAlloc = 281474976710656, memFree = 1073741824\<rparr>"

text \<open>
  A heap of one array of two bytes, a heap of one empty array, and the slice that shows
  all of an array.
\<close>

definition twoBytes :: state where
  "twoBytes = emptyState\<lparr>heap := [[0x41, 0x42]]\<rparr>"

definition noBytes :: state where
  "noBytes = emptyState\<lparr>heap := [[]]\<rparr>"

definition wholeOf :: "state \<Rightarrow> nat \<Rightarrow> slice" where
  "wholeOf s a = \<lparr>arr = a, off = 0, len = length (heap s ! a), cap = length (heap s ! a)\<rparr>"

section \<open>The battery monitor\<close>

text \<open>
  Package \<open>pi_sugar\<close> computes with \<open>float64\<close>. The model takes the type of these values
  and the operations on them as parameters.
\<close>

record 'f float64ops =
  ofInt :: "int \<Rightarrow> 'f"          \<comment> \<open>\<open>float64(i)\<close>\<close>
  toInt :: "'f \<Rightarrow> int"          \<comment> \<open>\<open>int(x)\<close>\<close>
  fadd :: "'f \<Rightarrow> 'f \<Rightarrow> 'f"
  fdiv :: "'f \<Rightarrow> 'f \<Rightarrow> 'f"

record 'f PiSugar =
  voltage :: 'f
  charge :: int
  power_fld :: bool
  charging :: bool
  model :: int
  temperature :: int

definition powerReg :: nat where "powerReg = 0x02"
definition temperatureReg :: nat where "temperatureReg = 0x04"
definition voltageReg :: nat where "voltageReg = 0x22"
definition batteryChargeReg :: nat where "batteryChargeReg = 0x2a"
definition secondsInAMinute :: int where "secondsInAMinute = 60"
definition minutesInAnHour :: int where "minutesInAnHour = 60"
definition hoursInADay :: int where "hoursInADay = 24"
definition numberOfDays :: int where "numberOfDays = 7"

text \<open>
  \<open>table[firstElement:]\<close> panics when \<open>firstElement\<close> is beyond the length of the table.
\<close>

definition appendInt :: "int list \<Rightarrow> int \<Rightarrow> int \<Rightarrow> error + int list" where
  "appendInt table v maxSize =
     (let firstElement = (if int (length table) = maxSize then 1 else 0 :: nat)
      in if firstElement > length table then Inl SliceBoundsOutOfRange
         else Inr (drop firstElement table @ [v]))"

definition appendFloat64 :: "'f list \<Rightarrow> 'f \<Rightarrow> int \<Rightarrow> error + 'f list" where
  "appendFloat64 table v maxSize =
     (let firstElement = (if int (length table) = maxSize then 1 else 0 :: nat)
      in if firstElement > length table then Inl SliceBoundsOutOfRange
         else Inr (drop firstElement table @ [v]))"

definition avgInt :: "'f float64ops \<Rightarrow> int list \<Rightarrow> 'f" where
  "avgInt F table =
     fdiv F (foldl (\<lambda>avg v. fadd F avg (ofInt F v)) (ofInt F 0) table)
       (ofInt F (int (length table)))"

definition avgFloat64 :: "'f float64ops \<Rightarrow> 'f list \<Rightarrow> 'f" where
  "avgFloat64 F table =
     fdiv F (foldl (\<lambda>avg v. fadd F avg v) (ofInt F 0) table) (ofInt F (int (length table)))"

text \<open>
  \<open>I2cReadRegister\<close> belongs to another package. It is a parameter: from the register,
  the two bytes of the buffer and the number of bytes asked for, it gives the reason code
  and the two bytes the buffer holds afterwards.
\<close>

type_synonym buf = "byte \<times> byte"
type_synonym reader = "nat \<Rightarrow> buf \<Rightarrow> nat \<Rightarrow> int \<times> buf"

text \<open>
  The first version of \<open>Refresh\<close> (the file without the histories): the variable of the
  package is the \<open>PiSugar\<close> alone. The call of \<open>Debug\<close> that ends both versions only
  prints the four fields and is left out.
\<close>

definition RefreshPlain :: "'f float64ops \<Rightarrow> reader \<Rightarrow> 'f PiSugar \<Rightarrow> 'f PiSugar" where
  "RefreshPlain F I2cReadRegister p =
     (case I2cReadRegister temperatureReg (0, 0) 1 of (code1, buf1) \<Rightarrow>
      let p1 = (if code1 = 0 then p\<lparr>temperature := uint (fst buf1) - 40\<rparr> else p) in
      case I2cReadRegister voltageReg buf1 2 of (code2, buf2) \<Rightarrow>
      let p2 = (if code2 = 0
                then p1\<lparr>voltage := fdiv F
                        (ofInt F (uint (push_bit 8 (ucast (fst buf2)) OR ucast (snd buf2) :: 16 word)))
                        (ofInt F 1000)\<rparr>
                else p1) in
      case I2cReadRegister batteryChargeReg buf2 1 of (code3, buf3) \<Rightarrow>
      let p3 = (if code3 = 0 then p2\<lparr>charge := uint (fst buf3)\<rparr> else p2) in
      case I2cReadRegister powerReg buf3 1 of (code4, buf4) \<Rightarrow>
      if code4 = 0 then p3\<lparr>power_fld := (fst buf4 AND 0x80 \<noteq> 0)\<rparr> else p3)"

text \<open>
  The second version keeps histories in variables of the package. \<open>counter\<close> is a Go
  \<open>int\<close> of 64 bits that is incremented once a call, so it is modelled without the
  wrap-around; \<open>counter%60 == 0\<close> holds exactly when 60 divides the counter.
\<close>

record 'f monitor =
  piSugar :: "'f PiSugar"
  lastMinuteCharge :: "int list"
  lastHourCharge :: "'f list"
  lastDayCharge :: "'f list"
  lastMinuteVoltage :: "'f list"
  lastHourVoltage :: "'f list"
  lastDayVoltage :: "'f list"
  lastMinuteTemperature :: "int list"
  lastHourTemperature :: "'f list"
  lastDayTemperature :: "'f list"
  counter :: int

definition thenE :: "error + 'a \<Rightarrow> ('a \<Rightarrow> error + 'b) \<Rightarrow> error + 'b" where
  "thenE x f = (case x of Inl e \<Rightarrow> Inl e | Inr a \<Rightarrow> f a)"

text \<open>The four blocks of \<open>Refresh\<close> that run when a read returned code 0.\<close>

definition refreshTemperature :: "'f float64ops \<Rightarrow> buf \<Rightarrow> 'f monitor \<Rightarrow> error + 'f monitor" where
  "refreshTemperature F buf g =
     thenE (appendInt (lastMinuteTemperature g) (uint (fst buf) - 40) secondsInAMinute) (\<lambda>t.
     let g1 = g\<lparr>lastMinuteTemperature := t,
                piSugar := (piSugar g)\<lparr>temperature := toInt F (avgInt F t)\<rparr>\<rparr> in
     if counter g1 mod 60 = 0 then
       thenE (appendFloat64 (lastHourTemperature g1) (avgInt F (lastMinuteTemperature g1))
                minutesInAnHour) (\<lambda>h.
       let g2 = g1\<lparr>lastHourTemperature := h\<rparr> in
       if counter g2 mod 1440 = 0 then
         thenE (appendFloat64 (lastDayTemperature g2) (avgFloat64 F (lastHourTemperature g2))
                  (numberOfDays * hoursInADay)) (\<lambda>d.
         Inr (g2\<lparr>lastDayTemperature := d\<rparr>))
       else Inr g2)
     else Inr g1)"

definition refreshVoltage :: "'f float64ops \<Rightarrow> buf \<Rightarrow> 'f monitor \<Rightarrow> error + 'f monitor" where
  "refreshVoltage F buf g =
     thenE (appendFloat64 (lastMinuteVoltage g)
              (fdiv F (ofInt F (uint (push_bit 8 (ucast (fst buf)) OR ucast (snd buf) :: 16 word)))
                 (ofInt F 1000))
              secondsInAMinute) (\<lambda>t.
     let g1 = g\<lparr>lastMinuteVoltage := t,
                piSugar := (piSugar g)\<lparr>voltage := avgFloat64 F t\<rparr>\<rparr> in
     if counter g1 mod 60 = 0 then
       thenE (appendFloat64 (lastHourVoltage g1) (avgFloat64 F (lastMinuteVoltage g1))
                minutesInAnHour) (\<lambda>h.
       let g2 = g1\<lparr>lastHourVoltage := h\<rparr> in
       if counter g2 mod 1440 = 0 then
         thenE (appendFloat64 (lastDayVoltage g2) (avgFloat64 F (lastHourVoltage g2))
                  (numberOfDays * hoursInADay)) (\<lambda>d.
         Inr (g2\<lparr>lastDayVoltage := d\<rparr>))
       else Inr g2)
     else Inr g1)"

definition refreshCharge :: "'f float64ops \<Rightarrow> buf \<Rightarrow> 'f monitor \<Rightarrow> error + 'f monitor" where
  "refreshCharge F buf g =
     thenE (appendInt (lastMinuteCharge g) (uint (fst buf)) secondsInAMinute) (\<lambda>t.
     let g1 = g\<lparr>lastMinuteCharge := t,
                piSugar := (piSugar g)\<lparr>charge := toInt F (avgInt F t)\<rparr>\<rparr> in
     if counter g1 mod 60 = 0 then
       thenE (appendFloat64 (lastHourCharge g1) (avgInt F (lastMinuteCharge g1))
                minutesInAnHour) (\<lambda>h.
       let g2 = g1\<lparr>lastHourCharge := h\<rparr> in
       if counter g2 mod 1440 = 0 then
         thenE (appendFloat64 (lastDayCharge g2) (avgFloat64 F (lastHourCharge g2))
                  (numberOfDays * hoursInADay)) (\<lambda>d.
         Inr (g2\<lparr>lastDayCharge := d\<rparr>))
       else Inr g2)
     else Inr g1)"

definition refreshPower :: "buf \<Rightarrow> 'f monitor \<Rightarrow> 'f monitor" where
  "refreshPower buf g = g\<lparr>piSugar := (piSugar g)\<lparr>power_fld := (fst buf AND 0x80 \<noteq> 0)\<rparr>\<rparr>"

definition Refresh :: "'f float64ops \<Rightarrow> reader \<Rightarrow> 'f monitor \<Rightarrow> error + 'f monitor" where
  "Refresh F I2cReadRegister g =
     (let g0 = g\<lparr>counter := counter g + 1\<rparr> in
      case I2cReadRegister temperatureReg (0, 0) 1 of (code1, buf1) \<Rightarrow>
      thenE (if code1 = 0 then refreshTemperature F buf1 g0 else Inr g0) (\<lambda>g1.
      case I2cReadRegister voltageReg buf1 2 of (code2, buf2) \<Rightarrow>
      thenE (if code2 = 0 then refreshVoltage F buf2 g1 else Inr g1) (\<lambda>g2.
      case I2cReadRegister batteryChargeReg buf2 1 of (code3, buf3) \<Rightarrow>
      thenE (if code3 = 0 then refreshCharge F buf3 g2 else Inr g2) (\<lambda>g3.
      case I2cReadRegister powerReg buf3 1 of (code4, buf4) \<Rightarrow>
      Inr (if code4 = 0 then refreshPower buf4 g3 else g3)))))"

text \<open>
  Values to run the two versions of \<open>Refresh\<close> on: exact arithmetic on rationals in the
  place of \<open>float64\<close> (with the conversion to \<open>int\<close> truncating towards zero), a bus on
  which every read fails, a bus on which only the read of the temperature fails, and the
  variables of the package before the first call.
\<close>

definition exactOps :: "rat float64ops" where
  "exactOps = \<lparr>ofInt = of_int, toInt = (\<lambda>x. if 0 \<le> x then \<lfloor>x\<rfloor> else \<lceil>x\<rceil>),
                fadd = (+), fdiv = (/)\<rparr>"

definition offline :: reader where
  "offline reg b n = (1, b)"

definition noThermometer :: reader where
  "noThermometer reg b n =
     (if reg = temperatureReg then (1, b)
      else if reg = voltageReg then (0, (0x10, 0x68))
      else if reg = batteryChargeReg then (0, (0x55, snd b))
      else (0, (0x80, snd b)))"

definition sugar0 :: "rat PiSugar" where
  "sugar0 = \<lparr>voltage = 0, charge = 0, power_fld = False, charging = False, model = 0,
             temperature = 25\<rparr>"

definition monitor0 :: "rat monitor" where
  "monitor0 = \<lparr>piSugar = sugar0, lastMinuteCharge = [], lastHourCharge = [], lastDayCharge = [],
     lastMinuteVoltage = [], lastHourVoltage = [], lastDayVoltage = [],
     lastMinuteTemperature = [], lastHourTemperature = [], lastDayTemperature = [],
     counter = 0\<rparr>"

section \<open>Facts about the registers\<close>

lemma and_shifted_mask:
  "(n :: nat) AND push_bit k (mask m) = push_bit k (take_bit m (drop_bit k n))"
  by (rule bit_eqI) (auto simp add: bit_simps)

lemma half_mod_32768: "2 * (((n::nat) div 2) mod 32768) = 2 * ((n mod 65536) div 2)"
proof -
  have "n mod (2 * 32768) = 2 * (n div 2 mod 32768) + n mod 2"
    by (rule mod_mult2_eq)
  then have "n mod 65536 = 2 * (n div 2 mod 32768) + n mod 2"
    by simp
  then have "n mod 65536 div 2 = n div 2 mod 32768"
    by (simp only: div_mult_self4) simp
  then show ?thesis by simp
qed

lemma and_FFFE_unat: "unat ((d::uint32) AND 0xFFFE) = 2 * ((unat d mod 65536) div 2)"
proof -
  have m: "(65534 :: nat) = push_bit 1 (mask 15)"
    by (simp add: mask_eq_exp_minus_1)
  have "unat (d AND 0xFFFE) = unat d AND 65534"
    by (simp add: unsigned_and_eq)
  also have "\<dots> = push_bit 1 (take_bit 15 (drop_bit 1 (unat d)))"
    by (simp only: m and_shifted_mask)
  also have "\<dots> = 2 * ((unat d div 2) mod 32768)"
    by (simp add: push_bit_eq_mult take_bit_eq_mod drop_bit_eq_div)
  also have "\<dots> = 2 * ((unat d mod 65536) div 2)"
    by (rule half_mod_32768)
  finally show ?thesis .
qed

text \<open>
  C4 (as amended). For every requested divider, \<open>setI2cDiv\<close> makes one write, to the clock
  divider register, of a value that is even, fits in 16 bits and is at most the requested
  value. That value is the low 16 bits of the request with the lowest bit cleared; it is
  the request rounded down to an even number when the request is below 65536.
\<close>

theorem setI2cDiv_programs:
  "\<exists>w. setI2cDiv L d s = s\<lparr>trace := trace s @ [Wr i2cMem (clkDivReg L) w]\<rparr>
       \<and> even (unat w) \<and> unat w < 65536 \<and> unat w \<le> unat d
       \<and> unat w = 2 * ((unat d mod 65536) div 2)
       \<and> (unat d < 65536 \<longrightarrow> unat w = 2 * (unat d div 2))"
proof -
  let ?w = "d AND 0xFFFE"
  have st: "setI2cDiv L d s = s\<lparr>trace := trace s @ [Wr i2cMem (clkDivReg L) ?w]\<rparr>"
    by (simp add: setI2cDiv_def store_def)
  have u: "unat ?w = 2 * ((unat d mod 65536) div 2)"
    by (rule and_FFFE_unat)
  have le: "unat ?w \<le> unat d"
    using word_and_le2 [of d "0xFFFE"] by (simp only: word_le_nat_alt)
  have "unat d mod 65536 < 65536"
    by simp
  moreover have "2 * ((unat d mod 65536) div 2) \<le> unat d mod 65536"
    by simp
  ultimately have lt: "unat ?w < 65536"
    unfolding u by (rule le_less_trans [rotated])
  have ev: "even (unat ?w)"
    unfolding u by simp
  have small: "unat d < 65536 \<longrightarrow> unat ?w = 2 * (unat d div 2)"
    unfolding u by simp
  from st u le lt ev small show ?thesis
    by blast
qed

theorem setI2cDiv_programs_witness:
  "unat (1001 :: uint32) < 65536 \<and>
   setI2cDiv bscRegs 1001 emptyState = emptyState\<lparr>trace := [Wr i2cMem clockDividerReg 1000]\<rparr>"
  using setI2cDiv_programs [of bscRegs 1001 emptyState]
  by (simp add: setI2cDiv_def store_def emptyState_def bscRegs_def)

text \<open>
  The request 65537 rounded down to an even number is 65536; the value written is 0.
\<close>

theorem setI2cDiv_counterexample:
  "trace (setI2cDiv bscRegs 65537 emptyState) = [Wr i2cMem clockDividerReg 0] \<and>
   2 * (unat (65537 :: uint32) div 2) = 65536"
  by (simp add: setI2cDiv_def store_def emptyState_def bscRegs_def)

lemma chip_le_2:
  assumes "chip \<le> (2::byte)"
  shows "unat (21 + chip) = 21 + unat chip"
  using assms by (simp add: unat_word_ariths word_le_nat_alt)

lemma bit_or_single:
  "bit ((v::uint32) OR 2 ^ n) i = (if i = n \<and> n < 32 then True else bit v i)"
  by (auto simp add: bit_simps)

lemma bit_andnot_single:
  "bit ((v::uint32) AND NOT (2 ^ n)) i = (if i = n then False else bit v i)"
  by (auto simp add: bit_simps dest: bit_imp_le_length)

lemma bit_or_8: "bit ((v::uint32) OR 8) i = (i = 3 \<or> bit v i)"
  using bit_or_single [of v 3 i] by simp

lemma bit_or_4: "bit ((v::uint32) OR 4) i = (i = 2 \<or> bit v i)"
  using bit_or_single [of v 2 i] by simp

lemma bit_andnot_8: "bit ((v::uint32) AND - 9) i = (i \<noteq> 3 \<and> bit v i)"
  using bit_andnot_single [of v 3 i] by simp

lemma bit_andnot_4: "bit ((v::uint32) AND - 5) i = (i \<noteq> 2 \<and> bit v i)"
  using bit_andnot_single [of v 2 i] by simp

lemma setBits_eq:
  "setBits D r msk s =
     s\<lparr>trace := trace s @ [Rd i2cMem r (D (trace s) i2cMem r), Wr i2cMem r (D (trace s) i2cMem r OR msk)]\<rparr>"
  by (simp add: setBits_def load_def store_def)

lemma clearBits_eq:
  "clearBits D r msk s =
     s\<lparr>trace := trace s @ [Rd i2cMem r (D (trace s) i2cMem r),
                              Wr i2cMem r (D (trace s) i2cMem r AND NOT msk)]\<rparr>"
  by (simp add: clearBits_def load_def store_def)

lemma ram_append: "ram m0 (xs @ ys) = ram (ram m0 xs) ys"
proof (induction xs arbitrary: m0)
  case Nil
  show ?case by simp
next
  case (Cons e es)
  then show ?case by (cases e) (simp_all add: fun_upd_def)
qed

lemma regValue_setBits:
  "regValue m0 (setBits (ram m0) r msk s) r' =
     (if r' = r then regValue m0 s r OR msk else regValue m0 s r')"
  by (simp add: regValue_def setBits_eq ram_append)

lemma regValue_clearBits:
  "regValue m0 (clearBits (ram m0) r msk s) r' =
     (if r' = r then regValue m0 s r AND NOT msk else regValue m0 s r')"
  by (simp add: regValue_def clearBits_eq ram_append)

text \<open>
  C5. For a chip of 0, 1 or 2, \<open>I2cChipSelectPolarity\<close> reads the control register once
  and writes it once, and the value written is the value read with bit 21 + chip set when
  the polarity is not zero and cleared when it is zero, every other bit as read. So on a
  control register that holds what is written to it, bit 21 + chip is set or cleared and
  every other bit is as before. For a chip above 2 nothing is read or written.
\<close>

theorem I2cChipSelectPolarity_one_bit:
  "(chip \<le> 2 \<longrightarrow>
      (\<exists>w. I2cChipSelectPolarity D L chip polarity s =
             s\<lparr>trace := trace s @ [Rd i2cMem (csReg L) (D (trace s) i2cMem (csReg L)),
                                      Wr i2cMem (csReg L) w]\<rparr>
           \<and> (\<forall>i. bit w i = (if i = 21 + unat chip then polarity \<noteq> 0
                                else bit (D (trace s) i2cMem (csReg L)) i))) \<and>
      (\<forall>i. bit (regValue m0 (I2cChipSelectPolarity (ram m0) L chip polarity s) (csReg L)) i
            = (if i = 21 + unat chip then polarity \<noteq> 0 else bit (regValue m0 s (csReg L)) i)))
   \<and> (2 < chip \<longrightarrow> I2cChipSelectPolarity D L chip polarity s = s)"
proof (intro conjI impI)
  assume c: "chip \<le> 2"
  then have n: "unat (21 + chip) = 21 + unat chip"
    by (rule chip_le_2)
  from c have "unat chip \<le> 2"
    by (simp add: word_le_nat_alt)
  then have lt: "21 + unat chip < 32"
    by simp
  from c have nc: "\<not> 2 < chip"
    by simp
  let ?v = "D (trace s) i2cMem (csReg L)"
  show "\<exists>w. I2cChipSelectPolarity D L chip polarity s =
             s\<lparr>trace := trace s @ [Rd i2cMem (csReg L) ?v, Wr i2cMem (csReg L) w]\<rparr>
           \<and> (\<forall>i. bit w i = (if i = 21 + unat chip then polarity \<noteq> 0 else bit ?v i))"
  proof (cases "polarity = 0")
    case True
    with nc n show ?thesis
      by (intro exI [of _ "?v AND NOT (2 ^ (21 + unat chip))"])
         (simp add: I2cChipSelectPolarity_def clearBits_eq bit_andnot_single)
  next
    case False
    with nc n lt show ?thesis
      by (intro exI [of _ "?v OR 2 ^ (21 + unat chip)"])
         (simp add: I2cChipSelectPolarity_def setBits_eq bit_or_single)
  qed
  from nc n lt
  show "\<forall>i. bit (regValue m0 (I2cChipSelectPolarity (ram m0) L chip polarity s) (csReg L)) i
            = (if i = 21 + unat chip then polarity \<noteq> 0 else bit (regValue m0 s (csReg L)) i)"
    by (simp add: I2cChipSelectPolarity_def Let_def regValue_setBits regValue_clearBits
        bit_or_single bit_andnot_single)
next
  assume "2 < chip"
  then show "I2cChipSelectPolarity D L chip polarity s = s"
    by (simp add: I2cChipSelectPolarity_def)
qed

theorem I2cChipSelectPolarity_one_bit_witness:
  "(1 :: byte) \<le> 2 \<and> (2 :: byte) < 3 \<and>
   I2cChipSelectPolarity (ram (\<lambda>m r. 0x80)) bscRegs 1 1 emptyState =
     emptyState\<lparr>trace := [Rd i2cMem controlReg 0x80, Wr i2cMem controlReg 0x400080]\<rparr> \<and>
   regValue (\<lambda>m r. 0x80) (I2cChipSelectPolarity (ram (\<lambda>m r. 0x80)) bscRegs 1 1 emptyState)
     controlReg = 0x400080 \<and>
   I2cChipSelectPolarity (ram (\<lambda>m r. 0x80)) bscRegs 3 1 emptyState = emptyState"
  using I2cChipSelectPolarity_one_bit [of 1 "ram (\<lambda>m r. 0x80)" bscRegs 1 emptyState "\<lambda>m r. 0x80"]
    I2cChipSelectPolarity_one_bit [of 3 "ram (\<lambda>m r. 0x80)" bscRegs 1 emptyState "\<lambda>m r. 0x80"]
  by (simp add: I2cChipSelectPolarity_def setBits_eq regValue_def emptyState_def bscRegs_def)

text \<open>
  C8. On a control register that holds what is written to it, whatever it held before:
  after \<open>I2cMode(0, 0)\<close> bits 2 and 3 are both 0, after \<open>I2cMode(1, 1)\<close> both are 1, and
  in both cases every other bit of the register is as before.
\<close>

theorem I2cMode_bits_2_3:
  "\<not> bit (regValue m0 (I2cMode (ram m0) L 0 0 s) (csReg L)) 2 \<and>
   \<not> bit (regValue m0 (I2cMode (ram m0) L 0 0 s) (csReg L)) 3 \<and>
   bit (regValue m0 (I2cMode (ram m0) L 1 1 s) (csReg L)) 2 \<and>
   bit (regValue m0 (I2cMode (ram m0) L 1 1 s) (csReg L)) 3 \<and>
   (\<forall>i. i \<noteq> 2 \<and> i \<noteq> 3 \<longrightarrow>
      bit (regValue m0 (I2cMode (ram m0) L 0 0 s) (csReg L)) i = bit (regValue m0 s (csReg L)) i \<and>
      bit (regValue m0 (I2cMode (ram m0) L 1 1 s) (csReg L)) i = bit (regValue m0 s (csReg L)) i)"
  by (simp add: I2cMode_def regValue_setBits regValue_clearBits bit_or_8 bit_or_4
      bit_andnot_8 bit_andnot_4)

section \<open>Facts about the exchange\<close>

lemma waitBit_Some:
  "waitBit D r msk k s = Some s' \<Longrightarrow>
     \<exists>vs. vs \<noteq> [] \<and> s' = s\<lparr>trace := trace s @ map (Rd i2cMem r) vs\<rparr>"
proof (induction k arbitrary: s)
  case 0
  then show ?case by simp
next
  case (Suc k)
  let ?v = "D (trace s) i2cMem r"
  let ?s1 = "s\<lparr>trace := trace s @ [Rd i2cMem r ?v]\<rparr>"
  show ?case
  proof (cases "?v AND msk = 0")
    case True
    with Suc.prems have "waitBit D r msk k ?s1 = Some s'"
      by (simp add: load_def)
    from Suc.IH [OF this] obtain vs where "s' = ?s1\<lparr>trace := trace ?s1 @ map (Rd i2cMem r) vs\<rparr>"
      by blast
    then have "s' = s\<lparr>trace := trace s @ map (Rd i2cMem r) (?v # vs)\<rparr>"
      by simp
    then show ?thesis by blast
  next
    case False
    with Suc.prems have "s' = s\<lparr>trace := trace s @ map (Rd i2cMem r) [?v]\<rparr>"
      by (simp add: load_def)
    then show ?thesis by blast
  qed
qed

lemma exchangeByte_Some:
  assumes "exchangeByte D L k data i s = Some s'"
  shows "\<exists>c. waited c \<and> s' = s\<lparr>trace := trace s @ cycleEvents L (getByte s data i) c,
                     heap := (heap s)[arr data := (heap s ! arr data)[off data + i := rxByte c]]\<rparr>"
proof -
  from assms obtain s1 where w1: "waitBit D (csReg L) exch_txd k s = Some s1"
    by (auto simp add: exchangeByte_def split: bind_splits)
  let ?s2 = "store i2cMem (fifoReg L) (ucast (getByte s1 data i)) s1"
  from assms w1 obtain s3 where w3: "waitBit D (csReg L) exch_rxd k ?s2 = Some s3"
    by (auto simp add: exchangeByte_def Let_def split: bind_splits)
  let ?v = "D (trace s3) i2cMem (fifoReg L)"
  from assms w1 w3
  have r: "s' = setByte data i (ucast ?v) (s3\<lparr>trace := trace s3 @ [Rd i2cMem (fifoReg L) ?v]\<rparr>)"
    by (simp add: exchangeByte_def Let_def load_def)
  from waitBit_Some [OF w1] obtain tx where tx: "tx \<noteq> []"
    and s1: "s1 = s\<lparr>trace := trace s @ map (Rd i2cMem (csReg L)) tx\<rparr>" by blast
  from waitBit_Some [OF w3] obtain rx where rx: "rx \<noteq> []"
    and s3: "s3 = ?s2\<lparr>trace := trace ?s2 @ map (Rd i2cMem (csReg L)) rx\<rparr>" by blast
  have "s' = s\<lparr>trace := trace s @ cycleEvents L (getByte s data i) (tx, rx, ?v),
                heap := (heap s)[arr data := (heap s ! arr data)[off data + i := rxByte (tx, rx, ?v)]]\<rparr>"
    unfolding r by (simp add: s3 s1 store_def setByte_def cycleEvents_def rxByte_def getByte_def)
  moreover from tx rx have "waited (tx, rx, ?v)"
    by (simp add: waited_def)
  ultimately show ?thesis by blast
qed

lemma drop_bytesOf:
  assumes "validSlice s d" "i < len d"
  shows "drop i (bytesOf s d) = getByte s d i # drop (Suc i) (bytesOf s d)"
proof -
  from assms have "i < length (bytesOf s d)"
    by (auto simp add: bytesOf_def validSlice_def)
  then have "drop i (bytesOf s d) = bytesOf s d ! i # drop (Suc i) (bytesOf s d)"
    by (simp add: Cons_nth_drop_Suc)
  moreover from assms have "bytesOf s d ! i = getByte s d i"
    by (simp add: bytesOf_def getByte_def validSlice_def)
  ultimately show ?thesis by simp
qed

lemma take_Suc_update:
  "n < length a \<Longrightarrow> take (Suc n) (a[n := b]) = take n a @ [b]"
  by (simp add: take_Suc_conv_app_nth)

lemma poke_bytesOf:
  assumes "arr d < length (heap s)"
  shows "drop (Suc i) (bytesOf (s\<lparr>trace := t,
            heap := (heap s)[arr d := (heap s ! arr d)[off d + i := b]]\<rparr>) d)
         = drop (Suc i) (bytesOf s d)"
proof -
  have "drop (Suc i) (take (len d) (drop (off d) ((heap s ! arr d)[off d + i := b])))
      = drop (Suc i) (take (len d) (drop (off d) (heap s ! arr d)))"
    by (simp add: drop_take)
  with assms show ?thesis
    by (simp add: bytesOf_def)
qed

lemma poke_valid:
  "validSlice (s\<lparr>trace := t, heap := (heap s)[arr d := (heap s ! arr d)[j := b]]\<rparr>) d
     = validSlice s d"
  by (auto simp add: validSlice_def)

lemma exchangeLoop_Some:
  assumes "exchangeLoop D L k data i s = Some s'" "validSlice s data" "i \<le> len data"
  shows "\<exists>cs. length cs = len data - i \<and> list_all waited cs \<and>
      s' = s\<lparr>trace := trace s @ concat (map2 (cycleEvents L) (drop i (bytesOf s data)) cs),
             heap := (heap s)[arr data :=
                take (off data + i) (heap s ! arr data) @ map rxByte cs @
                drop (off data + len data) (heap s ! arr data)]\<rparr>"
  using assms
proof (induction "len data - i" arbitrary: i s)
  case 0
  then have i: "i = len data" by simp
  with "0.prems" have "s' = s" by simp
  moreover from "0.prems" have "arr data < length (heap s)"
    by (simp add: validSlice_def)
  ultimately show ?case
    using i by (intro exI [of _ "[]"]) simp
next
  case (Suc n)
  then have lt: "i < len data" by simp
  with Suc.prems obtain s1 where b: "exchangeByte D L k data i s = Some s1"
    and l: "exchangeLoop D L k data (Suc i) s1 = Some s'"
    by (auto split: option.splits)
  from exchangeByte_Some [OF b] obtain c where wc: "waited c" and s1:
    "s1 = s\<lparr>trace := trace s @ cycleEvents L (getByte s data i) c,
            heap := (heap s)[arr data := (heap s ! arr data)[off data + i := rxByte c]]\<rparr>"
    by blast
  from Suc.prems have v: "arr data < length (heap s)" "len data \<le> cap data"
    "off data + cap data \<le> length (heap s ! arr data)"
    by (simp_all add: validSlice_def)
  have v1: "validSlice s1 data"
    unfolding s1 using Suc.prems(2) by (simp add: poke_valid)
  from Suc.hyps lt have n: "n = len data - Suc i" "Suc i \<le> len data" by simp_all
  from Suc.hyps(1) [OF n(1) l v1 n(2)] obtain cs where cs: "length cs = len data - Suc i"
    and wcs: "list_all waited cs"
    and s': "s' = s1\<lparr>trace := trace s1 @ concat (map2 (cycleEvents L) (drop (Suc i) (bytesOf s1 data)) cs),
             heap := (heap s1)[arr data :=
                take (off data + Suc i) (heap s1 ! arr data) @ map rxByte cs @
                drop (off data + len data) (heap s1 ! arr data)]\<rparr>"
    by blast
  have d1: "drop (Suc i) (bytesOf s1 data) = drop (Suc i) (bytesOf s data)"
    unfolding s1 using v(1) by (rule poke_bytesOf)
  have d0: "drop i (bytesOf s data) = getByte s data i # drop (Suc i) (bytesOf s data)"
    using Suc.prems(2) lt by (rule drop_bytesOf)
  from lt v have il: "off data + i < length (heap s ! arr data)" by simp
  have h1: "heap s1 ! arr data = (heap s ! arr data)[off data + i := rxByte c]"
    unfolding s1 using v(1) by simp
  have t: "take (off data + Suc i) (heap s1 ! arr data) = take (off data + i) (heap s ! arr data) @ [rxByte c]"
    unfolding h1 using il take_Suc_update [of "off data + i" "heap s ! arr data" "rxByte c"] by simp
  have dr: "drop (off data + len data) (heap s1 ! arr data) = drop (off data + len data) (heap s ! arr data)"
    unfolding h1 using lt by simp
  have "s' = s\<lparr>trace := trace s @ concat (map2 (cycleEvents L) (drop i (bytesOf s data)) (c # cs)),
             heap := (heap s)[arr data :=
                take (off data + i) (heap s ! arr data) @ map rxByte (c # cs) @
                drop (off data + len data) (heap s ! arr data)]\<rparr>"
    unfolding s' t dr d1 d0 by (simp add: s1)
  moreover from cs lt have "length (c # cs) = len data - i" by simp
  moreover from wc wcs have "list_all waited (c # cs)" by simp
  ultimately show ?case by blast
qed

lemma length_bytesOf: "validSlice s d \<Longrightarrow> length (bytesOf s d) = len d"
  by (auto simp add: bytesOf_def validSlice_def)

lemma bytesOf_trace: "bytesOf (s\<lparr>trace := t\<rparr>) d = bytesOf s d"
  by (simp add: bytesOf_def)

lemma I2cExchange_Some:
  assumes "I2cExchange D L k data s = Some s'" "validSlice s data"
  shows "\<exists>cs c0 c1 dn c2. length cs = len data \<and> list_all waited cs \<and> dn \<noteq> [] \<and>
      s' = s\<lparr>trace := trace s @ exchPrologue L c0 c1 @
                         concat (map2 (cycleEvents L) (bytesOf s data) cs) @
                         exchEpilogue L dn c2,
             heap := (heap s)[arr data :=
                take (off data) (heap s ! arr data) @ map rxByte cs @
                drop (off data + len data) (heap s ! arr data)]\<rparr>"
proof -
  let ?c0 = "D (trace s) i2cMem (csReg L)"
  let ?s1 = "s\<lparr>trace := trace s @ [Rd i2cMem (csReg L) ?c0, Wr i2cMem (csReg L) (?c0 OR 0x30)]\<rparr>"
  let ?c1 = "D (trace ?s1) i2cMem (csReg L)"
  let ?s2 = "?s1\<lparr>trace := trace ?s1 @ [Rd i2cMem (csReg L) ?c1, Wr i2cMem (csReg L) (?c1 OR 0x80)]\<rparr>"
  have p: "setBits D (csReg L) exch_ta (clearI2cTxRxFifo D L s) = ?s2"
    by (simp add: clearI2cTxRxFifo_def setBits_eq exch_ta_def)
  have s2: "?s2 = s\<lparr>trace := trace s @ exchPrologue L ?c0 ?c1\<rparr>"
    by (simp add: exchPrologue_def)
  from assms(1) obtain s3 where l: "exchangeLoop D L k data 0 ?s2 = Some s3"
    unfolding I2cExchange_def Let_def p by (auto split: bind_splits)
  with assms(1) obtain s4 where w: "waitBit D (csReg L) exch_done k s3 = Some s4"
    unfolding I2cExchange_def Let_def p by (auto split: bind_splits)
  from assms(1) l w have e: "s' = clearBits D (csReg L) exch_ta s4"
    unfolding I2cExchange_def Let_def p by simp
  from assms(2) have v2: "validSlice ?s2 data"
    by (simp add: validSlice_def)
  have b2: "bytesOf ?s2 data = bytesOf s data"
    by (simp add: bytesOf_def)
  from exchangeLoop_Some [OF l v2] obtain cs where cs: "length cs = len data"
    and wcs: "list_all waited cs"
    and s3: "s3 = ?s2\<lparr>trace := trace ?s2 @ concat (map2 (cycleEvents L) (bytesOf ?s2 data) cs),
             heap := (heap ?s2)[arr data :=
                take (off data + 0) (heap ?s2 ! arr data) @ map rxByte cs @
                drop (off data + len data) (heap ?s2 ! arr data)]\<rparr>"
    by auto
  from waitBit_Some [OF w] obtain dn where dn: "dn \<noteq> []"
    and s4: "s4 = s3\<lparr>trace := trace s3 @ map (Rd i2cMem (csReg L)) dn\<rparr>"
    by blast
  let ?c2 = "D (trace s4) i2cMem (csReg L)"
  have "s' = s\<lparr>trace := trace s @ exchPrologue L ?c0 ?c1 @
                         concat (map2 (cycleEvents L) (bytesOf s data) cs) @
                         exchEpilogue L dn ?c2,
             heap := (heap s)[arr data :=
                take (off data) (heap s ! arr data) @ map rxByte cs @
                drop (off data + len data) (heap s ! arr data)]\<rparr>"
    unfolding e clearBits_eq
    by (simp add: s4 s3 bytesOf_trace exchEpilogue_def exchPrologue_def exch_ta_def)
  with cs wcs dn show ?thesis by blast
qed

lemma regValue_emptyState: "regValue m0 emptyState r = m0 i2cMem r"
  by (simp add: regValue_def emptyState_def)

lemma bscRegs_simps:
  "csReg bscRegs = controlReg" "fifoReg bscRegs = dataFifoReg" "clkDivReg bscRegs = clockDividerReg"
  by (simp_all add: bscRegs_def)

theorem I2cMode_bits_2_3_witness:
  "(5 :: nat) \<noteq> 2 \<and> (5 :: nat) \<noteq> 3 \<and>
   regValue (\<lambda>m r. 0xFFFFFFFF) (I2cMode (ram (\<lambda>m r. 0xFFFFFFFF)) bscRegs 0 0 emptyState) controlReg
     = 0xFFFFFFF3 \<and>
   regValue (\<lambda>m r. 0x20) (I2cMode (ram (\<lambda>m r. 0x20)) bscRegs 1 1 emptyState) controlReg = 0x2C \<and>
   bit (regValue (\<lambda>m r. 0x20) (I2cMode (ram (\<lambda>m r. 0x20)) bscRegs 1 1 emptyState)
          (csReg bscRegs)) 5"
  using I2cMode_bits_2_3 [of "\<lambda>m r. 0x20" bscRegs emptyState]
  by (simp add: I2cMode_def regValue_setBits regValue_clearBits regValue_emptyState
      bscRegs_simps)

lemma since_append: "trace s' = trace s @ new \<Longrightarrow> since s s' = new"
  by (simp add: since_def)

lemma filter_cycleEvents:
  "fifoReg L \<noteq> csReg L \<Longrightarrow> filter (onReg i2cMem (fifoReg L)) (cycleEvents L b c) = fifoPair L b c"
  by (cases c) (auto simp add: cycleEvents_def fifoPair_def filter_empty_conv)

lemma filter_cycles:
  assumes "fifoReg L \<noteq> csReg L"
  shows "filter (onReg i2cMem (fifoReg L)) (concat (map2 (cycleEvents L) bs cs))
       = concat (map2 (fifoPair L) bs cs)"
  using assms by (induction bs cs rule: list_induct2') (simp_all add: filter_cycleEvents)

lemma filter_prologue:
  "fifoReg L \<noteq> csReg L \<Longrightarrow> filter (onReg i2cMem (fifoReg L)) (exchPrologue L c0 c1) = []"
  by (simp add: exchPrologue_def)

lemma filter_epilogue:
  "fifoReg L \<noteq> csReg L \<Longrightarrow> filter (onReg i2cMem (fifoReg L)) (exchEpilogue L dn c2) = []"
  by (auto simp add: exchEpilogue_def filter_empty_conv)

lemma written_append: "written m r (xs @ ys) = written m r xs @ written m r ys"
proof (induction xs)
  case Nil
  show ?case by simp
next
  case (Cons e es)
  then show ?case by (cases e) simp_all
qed

lemma written_reads: "written m r (map (Rd m' r') vs) = []"
  by (induction vs) simp_all

lemma written_cycleEvents:
  "fifoReg L \<noteq> csReg L \<Longrightarrow> written i2cMem (fifoReg L) (cycleEvents L b c) = [ucast b]"
  by (cases c) (simp add: cycleEvents_def written_append written_reads)

lemma written_cycles:
  assumes "fifoReg L \<noteq> csReg L" "length bs = length cs"
  shows "written i2cMem (fifoReg L) (concat (map2 (cycleEvents L) bs cs)) = map ucast bs"
  using assms(2,1)
  by (induction bs cs rule: list_induct2) (simp_all add: written_append written_cycleEvents)

lemma written_prologue:
  "fifoReg L \<noteq> csReg L \<Longrightarrow> written i2cMem (fifoReg L) (exchPrologue L c0 c1) = []"
  by (simp add: exchPrologue_def)

lemma written_epilogue:
  "fifoReg L \<noteq> csReg L \<Longrightarrow> written i2cMem (fifoReg L) (exchEpilogue L dn c2) = []"
  by (simp add: exchEpilogue_def written_append written_reads)

lemma bytesOf_replaced:
  assumes "validSlice s d" "length xs = len d"
  shows "bytesOf (s\<lparr>trace := t, heap := (heap s)[arr d :=
            take (off d) (heap s ! arr d) @ xs @ drop (off d + len d) (heap s ! arr d)]\<rparr>) d = xs"
proof -
  from assms(1) have a: "arr d < length (heap s)" and o: "off d \<le> length (heap s ! arr d)"
    by (simp_all add: validSlice_def)
  from o have "drop (off d) (take (off d) (heap s ! arr d) @ xs @ drop (off d + len d) (heap s ! arr d))
      = xs @ drop (off d + len d) (heap s ! arr d)"
    by simp
  with a assms(2) show ?thesis
    by (simp add: bytesOf_def)
qed

lemma exchangeLoop_returns:
  assumes "answers D L k"
  shows "exchangeLoop D L k data i s \<noteq> None"
proof (induction "len data - i" arbitrary: i s)
  case 0
  then show ?case by simp
next
  case (Suc n)
  from assms obtain s1 where w1: "waitBit D (csReg L) exch_txd k s = Some s1"
    by (auto simp add: answers_def)
  from assms obtain s3 where w3: "waitBit D (csReg L) exch_rxd k
      (store i2cMem (fifoReg L) (ucast (getByte s1 data i)) s1) = Some s3"
    by (auto simp add: answers_def)
  from w1 w3 obtain s4 where b: "exchangeByte D L k data i s = Some s4"
    by (simp add: exchangeByte_def Let_def load_def)
  from Suc.hyps have "n = len data - Suc i" by simp
  from Suc.hyps(1) [OF this] have "exchangeLoop D L k data (Suc i) s4 \<noteq> None" .
  with b Suc.hyps(2) show ?case by simp
qed

lemma I2cExchange_returns:
  assumes "answers D L k"
  shows "I2cExchange D L k data s \<noteq> None"
proof -
  let ?s2 = "setBits D (csReg L) exch_ta (clearI2cTxRxFifo D L s)"
  from exchangeLoop_returns [OF assms] obtain s3 where l: "exchangeLoop D L k data 0 ?s2 = Some s3"
    by blast
  from assms obtain s4 where "waitBit D (csReg L) exch_done k s3 = Some s4"
    by (auto simp add: answers_def)
  with l show ?thesis
    by (simp add: I2cExchange_def Let_def)
qed

text \<open>
  C3. On a valid buffer of length \<open>n\<close>, with the data FIFO register distinct from the
  control and status register, a call of \<open>I2cExchange\<close> that returns has made \<open>n\<close> passes
  of wait, write, wait, read, one for each position in order, between the four accesses
  that open the transfer and those that close it. The accesses to the data FIFO register
  are therefore a write of byte 0, a read, a write of byte 1, a read, and so on: \<open>n\<close>
  writes and \<open>n\<close> reads in strict alternation, none for \<open>n = 0\<close>, and the bytes read are
  those the buffer holds afterwards. The call returns whenever the peripheral answers
  every wait within the bound.
\<close>

theorem I2cExchange_alternates:
  assumes "validSlice s data" and "fifoReg L \<noteq> csReg L"
  shows "(answers D L k \<longrightarrow> I2cExchange D L k data s \<noteq> None) \<and>
     (\<forall>s'. I2cExchange D L k data s = Some s' \<longrightarrow>
        (\<exists>cs c0 c1 dn c2. length cs = len data \<and> list_all waited cs \<and>
            since s s' = exchPrologue L c0 c1 @
                         concat (map2 (cycleEvents L) (bytesOf s data) cs) @
                         exchEpilogue L dn c2 \<and>
            fifoAccesses L (since s s') = concat (map2 (fifoPair L) (bytesOf s data) cs) \<and>
            bytesOf s' data = map rxByte cs))"
proof (intro conjI impI allI)
  assume "answers D L k"
  then show "I2cExchange D L k data s \<noteq> None"
    by (rule I2cExchange_returns)
next
  fix s'
  assume "I2cExchange D L k data s = Some s'"
  from I2cExchange_Some [OF this assms(1)] obtain cs c0 c1 dn c2
    where cs: "length cs = len data" and w: "list_all waited cs"
      and s': "s' = s\<lparr>trace := trace s @ exchPrologue L c0 c1 @
                         concat (map2 (cycleEvents L) (bytesOf s data) cs) @
                         exchEpilogue L dn c2,
             heap := (heap s)[arr data :=
                take (off data) (heap s ! arr data) @ map rxByte cs @
                drop (off data + len data) (heap s ! arr data)]\<rparr>"
    by blast
  from s' have n: "since s s' = exchPrologue L c0 c1 @
      concat (map2 (cycleEvents L) (bytesOf s data) cs) @ exchEpilogue L dn c2"
    by (simp add: since_append)
  have f: "fifoAccesses L (since s s') = concat (map2 (fifoPair L) (bytesOf s data) cs)"
    unfolding n fifoAccesses_def using assms(2)
    by (simp add: filter_cycles filter_prologue filter_epilogue)
  from cs have "length (map rxByte cs) = len data" by simp
  from bytesOf_replaced [OF assms(1) this] have b: "bytesOf s' data = map rxByte cs"
    unfolding s' .
  from cs w n f b
  show "\<exists>cs c0 c1 dn c2. length cs = len data \<and> list_all waited cs \<and>
            since s s' = exchPrologue L c0 c1 @
                         concat (map2 (cycleEvents L) (bytesOf s data) cs) @
                         exchEpilogue L dn c2 \<and>
            fifoAccesses L (since s s') = concat (map2 (fifoPair L) (bytesOf s data) cs) \<and>
            bytesOf s' data = map rxByte cs"
    by blast
qed

lemma echoDevice_answers:
  assumes "fifoReg L \<noteq> csReg L"
  shows "answers (echoDevice L) L (Suc k)"
  using assms
  by (simp add: answers_def load_def echoDevice_def exch_txd_def exch_rxd_def exch_done_def)

lemmas run_simps = I2cExchange_def exchangeByte_def load_def store_def setBits_def clearBits_def
  clearI2cTxRxFifo_def echoDevice_def exch_txd_def exch_rxd_def exch_done_def exch_ta_def
  getByte_def setByte_def bscRegs_def controlReg_def dataFifoReg_def emptyState_def
  validSlice_def fifoAccesses_def since_def bytesOf_def Let_def

lemma makeBytes_valid:
  "validSlice (snd (makeBytes n s)) (fst (makeBytes n s))"
  by (simp add: makeBytes_def validSlice_def)

lemma makeBytes_bytes:
  "bytesOf (snd (makeBytes n s)) (fst (makeBytes n s)) = replicate n 0"
  by (simp add: makeBytes_def bytesOf_def)

lemma exchangeByte_inTurn:
  assumes "answersInTurn D L k" and "sendTurn L (trace s)"
  shows "\<exists>s'. exchangeByte D L k data i s = Some s' \<and> sendTurn L (trace s')"
proof -
  from assms obtain s1 where w1: "waitBit D (csReg L) exch_txd k s = Some s1"
    by (auto simp add: answersInTurn_def)
  let ?s2 = "store i2cMem (fifoReg L) (ucast (getByte s1 data i)) s1"
  have "receiveTurn L (trace ?s2)"
    by (simp add: receiveTurn_def store_def)
  with assms(1) obtain s3 where w3: "waitBit D (csReg L) exch_rxd k ?s2 = Some s3"
    by (auto simp add: answersInTurn_def)
  let ?s4 = "setByte data i (ucast (D (trace s3) i2cMem (fifoReg L)))
      (s3\<lparr>trace := trace s3 @ [Rd i2cMem (fifoReg L) (D (trace s3) i2cMem (fifoReg L))]\<rparr>)"
  from w1 w3 have "exchangeByte D L k data i s = Some ?s4"
    by (simp add: exchangeByte_def Let_def load_def)
  moreover have "sendTurn L (trace ?s4)"
    by (simp add: sendTurn_def setByte_def)
  ultimately show ?thesis by blast
qed

lemma exchangeLoop_inTurn:
  assumes "answersInTurn D L k" and "sendTurn L (trace s)"
  shows "\<exists>s'. exchangeLoop D L k data i s = Some s' \<and> sendTurn L (trace s')"
  using assms(2)
proof (induction "len data - i" arbitrary: i s)
  case 0
  then show ?case by simp
next
  case (Suc n)
  from exchangeByte_inTurn [OF assms(1) Suc.prems] obtain s1
    where b: "exchangeByte D L k data i s = Some s1" and t: "sendTurn L (trace s1)"
    by blast
  from Suc.hyps have "n = len data - Suc i" by simp
  from Suc.hyps(1) [OF this t] obtain s' where l: "exchangeLoop D L k data (Suc i) s1 = Some s'"
    and t': "sendTurn L (trace s')"
    by blast
  from Suc.hyps(2) have "i < len data" by simp
  with b have "exchangeLoop D L k data i s = exchangeLoop D L k data (Suc i) s1"
    by (subst exchangeLoop.simps) simp
  with l t' show ?case by simp
qed

lemma I2cExchange_returns_inTurn:
  assumes "answersInTurn D L k"
  shows "I2cExchange D L k data s \<noteq> None"
proof -
  let ?s2 = "setBits D (csReg L) exch_ta (clearI2cTxRxFifo D L s)"
  have "sendTurn L (trace ?s2)"
    by (simp add: sendTurn_def setBits_eq)
  from exchangeLoop_inTurn [OF assms this] obtain s3
    where l: "exchangeLoop D L k data 0 ?s2 = Some s3" and t: "sendTurn L (trace s3)"
    by blast
  from assms t obtain s4 where "waitBit D (csReg L) exch_done k s3 = Some s4"
    by (auto simp add: answersInTurn_def)
  with l show ?thesis
    by (simp add: I2cExchange_def Let_def)
qed

lemma answers_inTurn: "answers D L k \<Longrightarrow> answersInTurn D L k"
  by (simp add: answers_def answersInTurn_def)

text \<open>
  C6 (as amended). For a length \<open>n \<ge> 0\<close> that is within the allocation limit of the
  runtime and the memory left, a call of \<open>I2cReceive(n)\<close> that returns gives a slice of
  length \<open>n\<close> showing \<open>n\<close> bytes, and the values written to the data FIFO register
  during the call are \<open>n\<close> zeros. The call returns whenever the peripheral answers each
  wait, in its turn, within the bound.
\<close>

theorem I2cReceive_zero_writes:
  assumes "0 \<le> n" and "n \<le> maxAlloc R" and "n \<le> memFree R" and "fifoReg L \<noteq> csReg L"
  shows "(answersInTurn D L k \<longrightarrow> I2cReceive D L R k n s \<noteq> None) \<and>
     (\<forall>r. I2cReceive D L R k n s = Some r \<longrightarrow>
        (\<exists>data s'. r = Inr (data, s') \<and> len data = nat n \<and>
            length (bytesOf s' data) = nat n \<and>
            written i2cMem (fifoReg L) (since s s') = replicate (nat n) 0))"
proof (intro conjI impI allI)
  assume "answersInTurn D L k"
  from I2cExchange_returns_inTurn [OF this]
  have "I2cExchange D L k (fst (makeBytes (nat n) s)) (snd (makeBytes (nat n) s)) \<noteq> None" .
  with assms(1,2,3) show "I2cReceive D L R k n s \<noteq> None"
    by (auto simp add: I2cReceive_def split: prod.splits)
next
  fix r
  assume r: "I2cReceive D L R k n s = Some r"
  let ?data = "fst (makeBytes (nat n) s)"
  let ?s1 = "snd (makeBytes (nat n) s)"
  from r assms(1,2,3) obtain s' where e: "I2cExchange D L k ?data ?s1 = Some s'"
    and r': "r = Inr (?data, s')"
    by (auto simp add: I2cReceive_def split: prod.splits option.splits)
  have l: "len ?data = nat n"
    by (simp add: makeBytes_def)
  have t: "trace ?s1 = trace s"
    by (simp add: makeBytes_def)
  from I2cExchange_Some [OF e makeBytes_valid] obtain cs c0 c1 dn c2
    where cs: "length cs = len ?data"
      and s': "s' = ?s1\<lparr>trace := trace ?s1 @ exchPrologue L c0 c1 @
                         concat (map2 (cycleEvents L) (bytesOf ?s1 ?data) cs) @
                         exchEpilogue L dn c2,
             heap := (heap ?s1)[arr ?data :=
                take (off ?data) (heap ?s1 ! arr ?data) @ map rxByte cs @
                drop (off ?data + len ?data) (heap ?s1 ! arr ?data)]\<rparr>"
    by blast
  from s' t have n: "since s s' = exchPrologue L c0 c1 @
      concat (map2 (cycleEvents L) (replicate (nat n) 0) cs) @ exchEpilogue L dn c2"
    by (simp add: since_append makeBytes_bytes)
  from cs l have "length (replicate (nat n) (0 :: byte)) = length cs"
    by simp
  from written_cycles [OF assms(4) this]
  have w: "written i2cMem (fifoReg L) (since s s') = replicate (nat n) 0"
    unfolding n using assms(4)
    by (simp add: written_append written_prologue written_epilogue)
  from cs have "length (map rxByte cs) = len ?data" by simp
  from bytesOf_replaced [OF makeBytes_valid this] have "bytesOf s' ?data = map rxByte cs"
    unfolding s' .
  with cs l have b: "length (bytesOf s' ?data) = nat n"
    by simp
  from r' l b w
  show "\<exists>data s'. r = Inr (data, s') \<and> len data = nat n \<and>
            length (bytesOf s' data) = nat n \<and>
            written i2cMem (fifoReg L) (since s s') = replicate (nat n) 0"
    by blast
qed

lemma I2cExchange_heap:
  assumes "I2cExchange D L k data s = Some s'" "validSlice s data"
  shows "\<exists>xs. length xs = len data \<and> heap s' = (heap s)[arr data :=
      take (off data) (heap s ! arr data) @ xs @ drop (off data + len data) (heap s ! arr data)]"
proof -
  from I2cExchange_Some [OF assms] obtain cs c0 c1 dn c2
    where "length cs = len data"
      and "s' = s\<lparr>trace := trace s @ exchPrologue L c0 c1 @
                         concat (map2 (cycleEvents L) (bytesOf s data) cs) @
                         exchEpilogue L dn c2,
             heap := (heap s)[arr data :=
                take (off data) (heap s ! arr data) @ map rxByte cs @
                drop (off data + len data) (heap s ! arr data)]\<rparr>"
    by blast
  then show ?thesis
    by (intro exI [of _ "map rxByte cs"]) simp
qed

text \<open>
  C7. After a call of \<open>I2cTransmit\<close> with a valid slice of the caller, the slice shows
  the bytes it showed before; indeed every array that existed before the call is
  unchanged. The call returns whenever the peripheral answers every wait within the bound.
\<close>

theorem I2cTransmit_keeps_caller_bytes:
  assumes "validSlice s data"
  shows "(answers D L k \<longrightarrow> I2cTransmit D L k data s \<noteq> None) \<and>
     (\<forall>s'. I2cTransmit D L k data s = Some s' \<longrightarrow>
        bytesOf s' data = bytesOf s data \<and> take (length (heap s)) (heap s') = heap s)"
proof -
  have total: "I2cTransmit D L k data s \<noteq> None" if a: "answers D L k"
  proof -
    obtain c s1 where ap: "appendBytes (data\<lparr>len := 0, cap := 0\<rparr>) (bytesOf s data) s = (c, s1)"
    by (cases "appendBytes (data\<lparr>len := 0, cap := 0\<rparr>) (bytesOf s data) s")
  from I2cExchange_returns [OF a, of c s1] ap show ?thesis
    by (simp add: I2cTransmit_def)
  qed
  have frame: "bytesOf s' data = bytesOf s data \<and> take (length (heap s)) (heap s') = heap s"
    if t: "I2cTransmit D L k data s = Some s'" for s'
  proof -
  from assms have a: "arr data < length (heap s)"
    and o: "off data \<le> length (heap s ! arr data)"
    by (simp_all add: validSlice_def)
  have h: "take (length (heap s)) (heap s') = heap s"
  proof (cases "len data = 0")
    case True
    let ?c = "data\<lparr>len := 0, cap := 0\<rparr>"
    from True assms have "bytesOf s data = []"
      by (simp add: bytesOf_def)
    then have ap: "appendBytes ?c (bytesOf s data) s = (?c, s)"
      by (simp add: appendBytes_def)
    with t have e: "I2cExchange D L k ?c s = Some s'"
      by (simp add: I2cTransmit_def)
    from assms have "validSlice s ?c"
      by (simp add: validSlice_def)
    from I2cExchange_heap [OF e this] have "heap s' = heap s"
      by auto
    then show ?thesis by simp
  next
    case False
    let ?c = "\<lparr>arr = length (heap s), off = 0, len = len data, cap = len data\<rparr>"
    let ?s1 = "s\<lparr>heap := heap s @ [bytesOf s data]\<rparr>"
    from assms have lb: "length (bytesOf s data) = len data"
      by (rule length_bytesOf)
    with False have ap: "appendBytes (data\<lparr>len := 0, cap := 0\<rparr>) (bytesOf s data) s = (?c, ?s1)"
      by (simp add: appendBytes_def bytesOf_def)
    with t have e: "I2cExchange D L k ?c ?s1 = Some s'"
      by (simp add: I2cTransmit_def)
    from lb have "validSlice ?s1 ?c"
      by (simp add: validSlice_def)
    from I2cExchange_heap [OF e this] obtain xs where
      "heap s' = (heap s @ [bytesOf s data])[length (heap s) := xs]"
      by auto
    then show ?thesis by simp
  qed
  from h a have "heap s' ! arr data = heap s ! arr data"
    by (metis nth_take)
  then have "bytesOf s' data = bytesOf s data"
    by (simp add: bytesOf_def)
  with h show ?thesis
    by simp
  qed
  from total frame show ?thesis
    by blast
qed

section \<open>Runs on the echoing peripheral\<close>

lemma echo_answers_1: "answers (echoDevice bscRegs) bscRegs 1"
  using echoDevice_answers [of bscRegs 0] by (simp add: bscRegs_def controlReg_def dataFifoReg_def)

theorem I2cExchange_alternates_witness:
  "validSlice twoBytes (wholeOf twoBytes 0) \<and> validSlice noBytes (wholeOf noBytes 0) \<and>
   fifoReg bscRegs \<noteq> csReg bscRegs \<and>
   answers (echoDevice bscRegs) bscRegs 1 \<and>
   map_option (\<lambda>s'. (fifoAccesses bscRegs (since twoBytes s'), bytesOf s' (wholeOf twoBytes 0)))
     (I2cExchange (echoDevice bscRegs) bscRegs 1 (wholeOf twoBytes 0) twoBytes)
   = Some ([Wr i2cMem dataFifoReg 0x41, Rd i2cMem dataFifoReg 0x42,
            Wr i2cMem dataFifoReg 0x42, Rd i2cMem dataFifoReg 0x43], [0x42, 0x43]) \<and>
   map_option (since noBytes)
     (I2cExchange (echoDevice bscRegs) bscRegs 1 (wholeOf noBytes 0) noBytes)
   = Some [Rd i2cMem controlReg 0x70000, Wr i2cMem controlReg 0x70030,
           Rd i2cMem controlReg 0x70000, Wr i2cMem controlReg 0x70080,
           Rd i2cMem controlReg 0x70000,
           Rd i2cMem controlReg 0x70000, Wr i2cMem controlReg 0x70000]"
  using I2cExchange_alternates [of twoBytes "wholeOf twoBytes 0" bscRegs "echoDevice bscRegs" 1]
    I2cExchange_alternates [of noBytes "wholeOf noBytes 0" bscRegs "echoDevice bscRegs" 1]
    echo_answers_1
  by (simp add: run_simps twoBytes_def noBytes_def wholeOf_def)

lemma replicate_2: "replicate 2 x = [x, x]"
  by (simp add: numeral_2_eq_2)

lemma fifoDevice_inTurn:
  assumes "fifoReg L \<noteq> csReg L"
  shows "answersInTurn (fifoDevice L) L (Suc k)"
proof -
  have tx: "fifoDevice L (trace s) i2cMem (csReg L) = exch_txd OR exch_done"
    if "sendTurn L (trace s)" for s
  proof -
    from that obtain tr' e where t: "trace s = tr' @ [e]"
      and e: "isWr i2cMem (csReg L) e \<or> isRd i2cMem (fifoReg L) e"
      unfolding sendTurn_def by (metis append_butlast_last_id last_snoc)
    from e assms have "\<not> isRd i2cMem (csReg L) e" "\<not> isWr i2cMem (fifoReg L) e"
      by (cases e; auto)+
    with assms show ?thesis
      by (simp add: fifoDevice_def t)
  qed
  have rx: "fifoDevice L (trace s) i2cMem (csReg L) = exch_rxd"
    if "receiveTurn L (trace s)" for s
  proof -
    from that obtain tr' e where t: "trace s = tr' @ [e]"
      and e: "isWr i2cMem (fifoReg L) e"
      unfolding receiveTurn_def by (metis append_butlast_last_id last_snoc)
    from e have "\<not> isRd i2cMem (csReg L) e"
      by (cases e) auto
    with e assms show ?thesis
      by (simp add: fifoDevice_def t)
  qed
  show ?thesis
    unfolding answersInTurn_def
    by (simp add: load_def tx rx exch_txd_def exch_rxd_def exch_done_def)
qed


lemma fifo_inTurn_1: "answersInTurn (fifoDevice bscRegs) bscRegs 1"
  using fifoDevice_inTurn [of bscRegs 0] by (simp add: bscRegs_def controlReg_def dataFifoReg_def)

theorem I2cReceive_zero_writes_witness:
  "(0 :: int) \<le> 2 \<and> 2 \<le> maxAlloc linux64 \<and> 2 \<le> memFree linux64 \<and>
   fifoReg bscRegs \<noteq> csReg bscRegs \<and>
   answersInTurn (fifoDevice bscRegs) bscRegs 1 \<and>
   map_option (map_sum id (\<lambda>(data, s'). (data, bytesOf s' data,
        written i2cMem (fifoReg bscRegs) (since emptyState s'))))
     (I2cReceive (fifoDevice bscRegs) bscRegs linux64 1 2 emptyState)
   = Some (Inr (\<lparr>arr = 0, off = 0, len = 2, cap = 2\<rparr>, [1, 1], [0, 0]))"
  using I2cReceive_zero_writes [of 2 linux64 bscRegs "fifoDevice bscRegs" 1 emptyState]
    fifo_inTurn_1
  by (simp add: run_simps fifoDevice_def linux64_def I2cReceive_def makeBytes_def replicate_2)

text \<open>
  The length \<open>1 << 62\<close> is not negative, and on 64-bit Linux \<open>make\<close> panics for it before
  any register is touched.
\<close>

theorem I2cReceive_counterexample:
  "(0 :: int) \<le> 4611686018427387904 \<and>
   I2cReceive (fifoDevice bscRegs) bscRegs linux64 1 4611686018427387904 emptyState
     = Some (Inl MakesliceLenOutOfRange)"
  by (simp add: I2cReceive_def linux64_def)

theorem I2cTransmit_keeps_caller_bytes_witness:
  "validSlice twoBytes (wholeOf twoBytes 0) \<and>
   answers (echoDevice bscRegs) bscRegs 1 \<and>
   map_option heap (I2cTransmit (echoDevice bscRegs) bscRegs 1 (wholeOf twoBytes 0) twoBytes)
   = Some [[0x41, 0x42], [0x42, 0x43]]"
  using I2cTransmit_keeps_caller_bytes [of twoBytes "wholeOf twoBytes 0" "echoDevice bscRegs" bscRegs 1]
    echo_answers_1
  by (simp add: run_simps I2cTransmit_def appendBytes_def twoBytes_def wholeOf_def)

section \<open>Facts about the waits and Begin\<close>

lemma waitBit_never:
  "(\<And>vs. D (trace s @ map (Rd i2cMem r) vs) i2cMem r AND msk = 0) \<Longrightarrow> waitBit D r msk k s = None"
proof (induction k arbitrary: s)
  case 0
  show ?case by simp
next
  case (Suc k)
  let ?v = "D (trace s) i2cMem r"
  from Suc.prems [of "[]"] have z: "?v AND msk = 0" by simp
  have "waitBit D r msk k (s\<lparr>trace := trace s @ [Rd i2cMem r ?v]\<rparr>) = None"
  proof (rule Suc.IH)
    fix vs
    from Suc.prems [of "?v # vs"]
    show "D (trace (s\<lparr>trace := trace s @ [Rd i2cMem r ?v]\<rparr>) @ map (Rd i2cMem r) vs) i2cMem r
            AND msk = 0"
      by simp
  qed
  with z show ?case by (simp add: load_def)
qed

lemma ram_reads: "ram m0 (map (Rd m r) vs) = m0"
  by (induction vs) simp_all

lemma statusDevice_reads:
  "statusDevice (tr @ map (Rd m r) vs) = statusDevice tr"
  by (rule ext)+ (simp add: statusDevice_def ram_append ram_reads)

lemma statusDevice_after_prologue:
  "statusDevice (exchPrologue L (statusDevice [] i2cMem (csReg L))
      (statusDevice [Rd i2cMem (csReg L) (statusDevice [] i2cMem (csReg L)),
                     Wr i2cMem (csReg L) (statusDevice [] i2cMem (csReg L) OR 0x30)] i2cMem (csReg L)))
     i2cMem (csReg L) = (if csReg L = statusReg then 0x32 else 0xB0)"
  by (simp add: statusDevice_def exchPrologue_def statusTXAcceptsData_def
      statusRXContainsData_def statusTransferDone_def)

text \<open>
  C1. The source declares the bits of the status register: TX FIFO accepts data is
  0x00000010, RX FIFO contains data is 0x00000020, transfer done is 0x00000002. The waits
  of \<open>I2cExchange\<close> test none of them: they test bits 18, 17 and 16 of the register at
  \<open>csReg\<close>, the one the function also writes the transfer-active bit to. So on a peripheral
  that shows all three declared bits set in its status register, and whose other
  registers are storage, no call of \<open>I2cExchange\<close> returns: whatever the three indices,
  the bound on the waits, the buffer and the heap, a wait ends without having seen
  its bit.
\<close>

theorem I2cExchange_statusDevice_spins:
  "I2cExchange statusDevice L k data (emptyState\<lparr>heap := h\<rparr>) = None"
proof -
  let ?s = "emptyState\<lparr>heap := h\<rparr>"
  let ?c0 = "statusDevice [] i2cMem (csReg L)"
  let ?c1 = "statusDevice [Rd i2cMem (csReg L) ?c0, Wr i2cMem (csReg L) (?c0 OR 0x30)] i2cMem (csReg L)"
  let ?s2 = "?s\<lparr>trace := exchPrologue L ?c0 ?c1\<rparr>"
  have p: "setBits statusDevice (csReg L) exch_ta (clearI2cTxRxFifo statusDevice L ?s) = ?s2"
    by (simp add: clearI2cTxRxFifo_def setBits_eq exch_ta_def exchPrologue_def emptyState_def)
  have v: "statusDevice (trace ?s2 @ map (Rd i2cMem (csReg L)) vs) i2cMem (csReg L)
      = (if csReg L = statusReg then 0x32 else 0xB0)" for vs
    by (simp add: statusDevice_reads statusDevice_after_prologue)
  have tx: "waitBit statusDevice (csReg L) exch_txd k ?s2 = None"
    by (rule waitBit_never, unfold v) (simp add: exch_txd_def)
  have dn: "waitBit statusDevice (csReg L) exch_done k ?s2 = None"
    by (rule waitBit_never, unfold v) (simp add: exch_done_def)
  have "exchangeLoop statusDevice L k data 0 ?s2 = (if 0 < len data then None else Some ?s2)"
    using tx by (simp add: exchangeByte_def)
  with dn show ?thesis
    unfolding I2cExchange_def Let_def p by simp
qed

lemma pins_trace:
  "foldl (\<lambda>st pin. pinMode pin md st) s pins
     = s\<lparr>trace := trace s @ map (\<lambda>p. SetPinMode p md) pins\<rparr>"
  by (induction pins arbitrary: s) (simp_all add: pinMode_def)

text \<open>
  C2 (as amended). \<open>I2cBegin\<close> writes zero to the control register and reads it back at
  once. It fails with the mapping error exactly when the value read back is zero, and then
  does nothing more. When the value read back is not zero it returns no error, after
  setting the pins of the device to I2C mode, reading the clock divider of \<open>spiMem\<close> and
  writing 2500 to the clock divider register.
\<close>

theorem I2cBegin_mapping_check:
  "(D (trace s @ [Wr i2cMem (csReg L) 0]) i2cMem (csReg L) = 0 \<longrightarrow>
      I2cBegin D L isBCM2711 byteWait dev s =
        (Some I2cMapError,
         s\<lparr>trace := trace s @ [Wr i2cMem (csReg L) 0, Rd i2cMem (csReg L) 0]\<rparr>)) \<and>
   (D (trace s @ [Wr i2cMem (csReg L) 0]) i2cMem (csReg L) \<noteq> 0 \<longrightarrow>
      fst (I2cBegin D L isBCM2711 byteWait dev s) = None \<and>
      (\<exists>v cdiv. v \<noteq> 0 \<and> trace (snd (I2cBegin D L isBCM2711 byteWait dev s)) =
         trace s @ [Wr i2cMem (csReg L) 0, Rd i2cMem (csReg L) v] @
         map (\<lambda>p. SetPinMode p I2c) (getI2cPins dev) @
         [Rd spiMem clockDividerReg cdiv, Wr i2cMem (clkDivReg L) 2500]))"
  by (simp add: I2cBegin_def Let_def load_def store_def pins_trace setI2cDiv_def
      i2cClockDivider2500_def)

theorem I2cBegin_mapping_check_witness:
  "ram (\<lambda>m r. 0) (trace emptyState @ [Wr i2cMem (csReg bscRegs) 0]) i2cMem (csReg bscRegs) = 0 \<and>
   echoDevice bscRegs (trace emptyState @ [Wr i2cMem (csReg bscRegs) 0]) i2cMem (csReg bscRegs) \<noteq> 0 \<and>
   I2cBegin (ram (\<lambda>m r. 0)) bscRegs False (\<lambda>cdiv coreFreq. 0) I2c1 emptyState =
     (Some I2cMapError, emptyState\<lparr>trace := [Wr i2cMem controlReg 0, Rd i2cMem controlReg 0]\<rparr>) \<and>
   I2cBegin (echoDevice bscRegs) bscRegs False (\<lambda>cdiv coreFreq. 0) I2c1 emptyState =
     (None, emptyState\<lparr>trace := [Wr i2cMem controlReg 0, Rd i2cMem controlReg 0x70000,
        SetPinMode 2 I2c, SetPinMode 3 I2c,
        Rd spiMem clockDividerReg 0x70000, Wr i2cMem clockDividerReg 2500]\<rparr>)"
  using I2cBegin_mapping_check [of "ram (\<lambda>m r. 0)" emptyState bscRegs False "\<lambda>cdiv coreFreq. 0" I2c1]
    I2cBegin_mapping_check [of "echoDevice bscRegs" emptyState bscRegs False "\<lambda>cdiv coreFreq. 0" I2c1]
  by (simp add: I2cBegin_def Let_def load_def store_def pinMode_def setI2cDiv_def
      i2cClockDivider2500_def getI2cPins_def I2c0_def I2c1_def I2c2_def emptyState_def
      bscRegs_def controlReg_def dataFifoReg_def clockDividerReg_def echoDevice_def
      exch_txd_def exch_rxd_def exch_done_def)

text \<open>
  A window that reads back the zero written gives the mapping error; one that reads back
  0x70000 gives success.
\<close>

theorem I2cBegin_counterexample:
  "I2cBegin (ram (\<lambda>m r. 0)) bscRegs False (\<lambda>cdiv coreFreq. 0) I2c1 emptyState =
     (Some I2cMapError, emptyState\<lparr>trace := [Wr i2cMem controlReg 0, Rd i2cMem controlReg 0]\<rparr>) \<and>
   fst (I2cBegin (echoDevice bscRegs) bscRegs False (\<lambda>cdiv coreFreq. 0) I2c1 emptyState) = None \<and>
   echoDevice bscRegs [Wr i2cMem controlReg 0] i2cMem controlReg = 0x70000"
  by (simp add: I2cBegin_def Let_def load_def store_def pinMode_def setI2cDiv_def
      i2cClockDivider2500_def getI2cPins_def I2c0_def I2c1_def I2c2_def emptyState_def
      bscRegs_def controlReg_def dataFifoReg_def clockDividerReg_def echoDevice_def
      exch_txd_def exch_rxd_def exch_done_def)

section \<open>Facts about the battery monitor\<close>

lemma appendInt_ok:
  "maxSize \<noteq> 0 \<Longrightarrow>
     appendInt table v maxSize = Inr ((if int (length table) = maxSize then tl table else table) @ [v])"
  by (auto simp add: appendInt_def drop_Suc)

lemma appendFloat64_ok:
  "maxSize \<noteq> 0 \<Longrightarrow>
     appendFloat64 table v maxSize
       = Inr ((if int (length table) = maxSize then tl table else table) @ [v])"
  by (auto simp add: appendFloat64_def drop_Suc)

text \<open>
  C10 (as amended). For \<open>maxSize \<ge> 1\<close> and a table no longer than \<open>maxSize\<close>, \<open>appendInt\<close>
  and \<open>appendFloat64\<close> return a sequence of length \<open>min(len(table) + 1, maxSize)\<close> that
  ends with the new value: the table, without its first element when it was full, followed
  by the value.
\<close>

theorem append_window:
  assumes "int (length table) \<le> maxSize" and "int (length ftable) \<le> maxSize" and "1 \<le> maxSize"
  shows "(\<exists>r. appendInt table v maxSize = Inr r \<and>
             length r = min (length table + 1) (nat maxSize) \<and> last r = v \<and>
             r = (if int (length table) = maxSize then tl table else table) @ [v]) \<and>
         (\<exists>r. appendFloat64 ftable fv maxSize = Inr r \<and>
             length r = min (length ftable + 1) (nat maxSize) \<and> last r = fv \<and>
             r = (if int (length ftable) = maxSize then tl ftable else ftable) @ [fv])"
proof -
  from assms(3) have m: "maxSize \<noteq> 0" by simp
  from assms(1,3) have "length ((if int (length table) = maxSize then tl table else table) @ [v])
      = min (length table + 1) (nat maxSize)"
    by auto
  moreover from assms(2,3)
  have "length ((if int (length ftable) = maxSize then tl ftable else ftable) @ [fv])
      = min (length ftable + 1) (nat maxSize)"
    by auto
  ultimately show ?thesis
    by (simp add: appendInt_ok [OF m] appendFloat64_ok [OF m])
qed

theorem append_window_witness:
  "int (length [1, 2, 3 :: int]) \<le> 3 \<and> int (length [1, 2 :: rat]) \<le> 3 \<and> (1 :: int) \<le> 3 \<and>
   appendInt [1, 2, 3] 4 3 = Inr [2, 3, 4] \<and>
   appendFloat64 [1, 2 :: rat] 4 3 = Inr [1, 2, 4]"
  using append_window [of "[1, 2, 3]" 3 "[1, 2 :: rat]" 4 4]
  by (simp add: appendInt_def appendFloat64_def)

text \<open>With \<open>maxSize = 0\<close> the empty table is within the bound, and both functions panic.\<close>

theorem append_window_counterexample:
  "int (length ([] :: int list)) \<le> 0 \<and>
   appendInt [] 7 0 = Inl SliceBoundsOutOfRange \<and>
   appendFloat64 ([] :: rat list) 7 0 = Inl SliceBoundsOutOfRange"
  by (simp add: appendInt_def appendFloat64_def)

lemmas window_sizes = secondsInAMinute_def minutesInAnHour_def numberOfDays_def hoursInADay_def

lemma refreshTemperature_frame:
  "\<exists>g'. (if c = 0 then refreshTemperature F buf g else Inr g) = Inr g' \<and>
     (c \<noteq> 0 \<longrightarrow> g' = g) \<and>
     voltage (piSugar g') = voltage (piSugar g) \<and> charge (piSugar g') = charge (piSugar g) \<and>
     power_fld (piSugar g') = power_fld (piSugar g)"
  by (simp add: refreshTemperature_def thenE_def Let_def appendInt_ok appendFloat64_ok
      window_sizes)

lemma refreshVoltage_frame:
  "\<exists>g'. (if c = 0 then refreshVoltage F buf g else Inr g) = Inr g' \<and>
     (c \<noteq> 0 \<longrightarrow> g' = g) \<and>
     temperature (piSugar g') = temperature (piSugar g) \<and>
     charge (piSugar g') = charge (piSugar g) \<and>
     power_fld (piSugar g') = power_fld (piSugar g)"
  by (simp add: refreshVoltage_def thenE_def Let_def appendInt_ok appendFloat64_ok
      window_sizes)

lemma refreshCharge_frame:
  "\<exists>g'. (if c = 0 then refreshCharge F buf g else Inr g) = Inr g' \<and>
     (c \<noteq> 0 \<longrightarrow> g' = g) \<and>
     temperature (piSugar g') = temperature (piSugar g) \<and>
     voltage (piSugar g') = voltage (piSugar g) \<and>
     power_fld (piSugar g') = power_fld (piSugar g)"
  by (simp add: refreshCharge_def thenE_def Let_def appendInt_ok appendFloat64_ok
      window_sizes)

lemma refreshPower_frame:
  "temperature (piSugar (if c = 0 then refreshPower buf g else g)) = temperature (piSugar g) \<and>
   voltage (piSugar (if c = 0 then refreshPower buf g else g)) = voltage (piSugar g) \<and>
   charge (piSugar (if c = 0 then refreshPower buf g else g)) = charge (piSugar g) \<and>
   (c \<noteq> 0 \<longrightarrow> (if c = 0 then refreshPower buf g else g) = g)"
  by (simp add: refreshPower_def)

lemma RefreshPlain_fields:
  assumes "rd temperatureReg (0, 0) 1 = (code1, buf1)" and "rd voltageReg buf1 2 = (code2, buf2)"
    and "rd batteryChargeReg buf2 1 = (code3, buf3)" and "rd powerReg buf3 1 = (code4, buf4)"
  shows "temperature (RefreshPlain F rd p)
           = (if code1 = 0 then uint (fst buf1) - 40 else temperature p)"
    and "voltage (RefreshPlain F rd p)
           = (if code2 = 0
              then fdiv F (ofInt F (uint (push_bit 8 (ucast (fst buf2)) OR ucast (snd buf2) :: 16 word)))
                     (ofInt F 1000)
              else voltage p)"
    and "charge (RefreshPlain F rd p) = (if code3 = 0 then uint (fst buf3) else charge p)"
    and "power_fld (RefreshPlain F rd p)
           = (if code4 = 0 then fst buf4 AND 0x80 \<noteq> 0 else power_fld p)"
  using assms by (simp_all add: RefreshPlain_def Let_def)

text \<open>
  C9. Name the reason code and the buffer that each of the four reads of a call of
  \<open>Refresh\<close> gives. In both versions of \<open>Refresh\<close>, a field whose read gave a code other
  than 0 has after the call the value it had before: the temperature for the first read,
  the voltage for the second, the charge for the third, the power flag for the fourth.
  The version with the histories always returns.
\<close>

theorem Refresh_keeps_field_on_error:
  assumes "rd temperatureReg (0, 0) 1 = (code1, buf1)" and "rd voltageReg buf1 2 = (code2, buf2)"
    and "rd batteryChargeReg buf2 1 = (code3, buf3)" and "rd powerReg buf3 1 = (code4, buf4)"
  shows "(code1 \<noteq> 0 \<longrightarrow> temperature (RefreshPlain F rd p) = temperature p) \<and>
         (code2 \<noteq> 0 \<longrightarrow> voltage (RefreshPlain F rd p) = voltage p) \<and>
         (code3 \<noteq> 0 \<longrightarrow> charge (RefreshPlain F rd p) = charge p) \<and>
         (code4 \<noteq> 0 \<longrightarrow> power_fld (RefreshPlain F rd p) = power_fld p) \<and>
         (\<exists>g'. Refresh F rd g = Inr g' \<and>
            (code1 \<noteq> 0 \<longrightarrow> temperature (piSugar g') = temperature (piSugar g)) \<and>
            (code2 \<noteq> 0 \<longrightarrow> voltage (piSugar g') = voltage (piSugar g)) \<and>
            (code3 \<noteq> 0 \<longrightarrow> charge (piSugar g') = charge (piSugar g)) \<and>
            (code4 \<noteq> 0 \<longrightarrow> power_fld (piSugar g') = power_fld (piSugar g)))"
proof -
  let ?g0 = "g\<lparr>counter := counter g + 1\<rparr>"
  from refreshTemperature_frame [of code1 F buf1 ?g0] obtain g1
    where s1: "(if code1 = 0 then refreshTemperature F buf1 ?g0 else Inr ?g0) = Inr g1"
      and k1: "code1 \<noteq> 0 \<longrightarrow> g1 = ?g0"
      and f1: "voltage (piSugar g1) = voltage (piSugar ?g0)" "charge (piSugar g1) = charge (piSugar ?g0)"
        "power_fld (piSugar g1) = power_fld (piSugar ?g0)"
    by blast
  from refreshVoltage_frame [of code2 F buf2 g1] obtain g2
    where s2: "(if code2 = 0 then refreshVoltage F buf2 g1 else Inr g1) = Inr g2"
      and k2: "code2 \<noteq> 0 \<longrightarrow> g2 = g1"
      and f2: "temperature (piSugar g2) = temperature (piSugar g1)"
        "charge (piSugar g2) = charge (piSugar g1)" "power_fld (piSugar g2) = power_fld (piSugar g1)"
    by blast
  from refreshCharge_frame [of code3 F buf3 g2] obtain g3
    where s3: "(if code3 = 0 then refreshCharge F buf3 g2 else Inr g2) = Inr g3"
      and k3: "code3 \<noteq> 0 \<longrightarrow> g3 = g2"
      and f3: "temperature (piSugar g3) = temperature (piSugar g2)"
        "voltage (piSugar g3) = voltage (piSugar g2)" "power_fld (piSugar g3) = power_fld (piSugar g2)"
    by blast
  let ?g4 = "if code4 = 0 then refreshPower buf4 g3 else g3"
  note f4 = refreshPower_frame [of code4 buf4 g3]
  have r: "Refresh F rd g = Inr ?g4"
    unfolding Refresh_def Let_def assms prod.case s1 s2 s3 thenE_def sum.case ..
  have t: "code1 \<noteq> 0 \<longrightarrow> temperature (piSugar ?g4) = temperature (piSugar g)"
    using k1 f2(1) f3(1) f4 by auto
  have v: "code2 \<noteq> 0 \<longrightarrow> voltage (piSugar ?g4) = voltage (piSugar g)"
    using f1(1) k2 f3(2) f4 by auto
  have c: "code3 \<noteq> 0 \<longrightarrow> charge (piSugar ?g4) = charge (piSugar g)"
    using f1(2) f2(2) k3 f4 by auto
  have pw: "code4 \<noteq> 0 \<longrightarrow> power_fld (piSugar ?g4) = power_fld (piSugar g)"
    using f1(3) f2(3) f3(3) f4 by auto
  from r t v c pw RefreshPlain_fields [OF assms, of F p] show ?thesis
    by simp
qed

lemmas reg_defs = temperatureReg_def voltageReg_def batteryChargeReg_def powerReg_def

theorem Refresh_keeps_field_on_error_witness:
  "offline temperatureReg (0, 0) 1 = (1, (0, 0)) \<and> offline voltageReg (0, 0) 2 = (1, (0, 0)) \<and>
   offline batteryChargeReg (0, 0) 1 = (1, (0, 0)) \<and> offline powerReg (0, 0) 1 = (1, (0, 0)) \<and>
   (1 :: int) \<noteq> 0 \<and>
   RefreshPlain exactOps offline sugar0 = sugar0 \<and>
   map_sum id piSugar (Refresh exactOps offline monitor0) = Inr sugar0 \<and>
   noThermometer temperatureReg (0, 0) 1 = (1, (0, 0)) \<and>
   temperature (RefreshPlain exactOps noThermometer sugar0) = 25 \<and>
   RefreshPlain exactOps noThermometer sugar0 =
     sugar0\<lparr>voltage := 21 / 5, charge := 85, power_fld := True\<rparr> \<and>
   map_sum id piSugar (Refresh exactOps noThermometer monitor0) =
     Inr (sugar0\<lparr>voltage := 21 / 5, charge := 85, power_fld := True\<rparr>)"
  using Refresh_keeps_field_on_error [of offline 1 "(0, 0)" 1 "(0, 0)" 1 "(0, 0)" 1 "(0, 0)"
      exactOps sugar0 monitor0]
    Refresh_keeps_field_on_error [of noThermometer 1 "(0, 0)" 0 "(0x10, 0x68)" 0 "(0x55, 0x68)"
      0 "(0x80, 0x68)" exactOps sugar0 monitor0]
  by (simp add: offline_def noThermometer_def reg_defs RefreshPlain_def Refresh_def
      refreshTemperature_def refreshVoltage_def refreshCharge_def refreshPower_def thenE_def
      appendInt_def appendFloat64_def avgInt_def avgFloat64_def exactOps_def sugar0_def
      monitor0_def window_sizes Let_def)

end
